theory Spec2Isabelle
  imports Main
begin

section \<open>Signals and errors\<close>

text \<open>
  An \<^verbatim>\<open>os.Signal\<close> delivered by the operating system is a \<^verbatim>\<open>syscall.Signal\<close>, an
  integer.  The interface value \<^verbatim>\<open>os.Signal\<close> may also be \<^verbatim>\<open>nil\<close>: that is \<open>None\<close>.
\<close>

type_synonym signal = int
type_synonym os_Signal = "signal option"

text \<open>
  \<^verbatim>\<open>type Canceled struct { signal os.Signal }\<close> with its methods
  \<^verbatim>\<open>Unwrap\<close> and \<^verbatim>\<open>Signal\<close>.
\<close>

datatype Canceled = Canceled (signal: os_Signal)

text \<open>
  The error values the package meets: the two sentinel errors of package
  \<^verbatim>\<open>context\<close>, a \<^verbatim>\<open>Canceled\<close> value, an error without an \<^verbatim>\<open>Unwrap\<close> method
  (\<^verbatim>\<open>errors.New\<close>), and an error that wraps another one (\<^verbatim>\<open>fmt.Errorf\<close> with
  \<^verbatim>\<open>%w\<close>).  A \<^verbatim>\<open>nil\<close> error is \<open>None\<close> of \<open>error option\<close>.
\<close>

datatype error =
    context_Canceled
  | context_DeadlineExceeded
  | SignalCanceled Canceled
  | errorString string
  | wrapError string error

definition Canceled_Unwrap :: "Canceled \<Rightarrow> error" where
  "Canceled_Unwrap s = context_Canceled"

definition Canceled_Signal :: "Canceled \<Rightarrow> os_Signal" where
  "Canceled_Signal s = signal s"

text \<open>\<^verbatim>\<open>errors.Unwrap\<close>: the \<^verbatim>\<open>Unwrap\<close> method of the error when it has one.\<close>

fun Unwrap :: "error \<Rightarrow> error option" where
  "Unwrap (SignalCanceled s) = Some (Canceled_Unwrap s)"
| "Unwrap (wrapError msg e) = Some e"
| "Unwrap e = None"

text \<open>
  The rank of an error bounds the length of its \<^verbatim>\<open>Unwrap\<close> chain; it is the
  termination measure of the two chain walks below.
\<close>

fun rank :: "error \<Rightarrow> nat" where
  "rank (wrapError msg e) = Suc (Suc (rank e))"
| "rank (SignalCanceled s) = 1"
| "rank e = 0"

text \<open>
  \<^verbatim>\<open>errors.Is(err, target)\<close> on a non-nil \<^verbatim>\<open>err\<close>: compare, then follow
  \<^verbatim>\<open>Unwrap\<close>.
\<close>

function errors_Is_chain :: "error \<Rightarrow> error \<Rightarrow> bool" where
  "errors_Is_chain e target =
     (if e = target then True
      else (case Unwrap e of None \<Rightarrow> False | Some e' \<Rightarrow> errors_Is_chain e' target))"
  by pat_completeness auto
termination
proof (relation "measure (\<lambda>(e, t). rank e)")
  show "wf (measure (\<lambda>(e, t). rank e))" by simp
next
  fix e target :: error and e'
  assume "Unwrap e = Some e'"
  then show "((e', target), (e, target)) \<in> measure (\<lambda>(e, t). rank e)"
    by (cases e) (auto simp: Canceled_Unwrap_def)
qed

definition errors_Is :: "error option \<Rightarrow> error option \<Rightarrow> bool" where
  "errors_Is err target =
     (case err of None \<Rightarrow> target = None
      | Some e \<Rightarrow> (case target of None \<Rightarrow> False | Some t \<Rightarrow> errors_Is_chain e t))"

text \<open>
  \<^verbatim>\<open>errors.As(err, &target)\<close> with \<^verbatim>\<open>var target Canceled\<close>: the first error of
  the chain whose dynamic type is \<^verbatim>\<open>Canceled\<close> is stored in the target; \<open>None\<close>
  is the result \<^verbatim>\<open>false\<close>.
\<close>

function errors_As_chain :: "error \<Rightarrow> Canceled option" where
  "errors_As_chain e =
     (case e of
        SignalCanceled s \<Rightarrow> Some s
      | _ \<Rightarrow> (case Unwrap e of None \<Rightarrow> None | Some e' \<Rightarrow> errors_As_chain e'))"
  by pat_completeness auto
termination
proof (relation "measure rank")
  show "wf (measure rank)" by simp
qed (auto simp: Canceled_Unwrap_def)

definition errors_As :: "error option \<Rightarrow> Canceled option" where
  "errors_As err = (case err of None \<Rightarrow> None | Some e \<Rightarrow> errors_As_chain e)"

declare errors_Is_chain.simps [simp del]
declare errors_As_chain.simps [simp del]

section \<open>Contexts, channels and the signal registry\<close>

text \<open>
  A context value (never \<^verbatim>\<open>nil\<close>: package \<^verbatim>\<open>context\<close> forbids passing a nil
  \<^verbatim>\<open>Context\<close>).  \<open>cancelCtx i p\<close> is the result of \<^verbatim>\<open>WithCancel\<close> or
  \<^verbatim>\<open>WithCancelCause\<close> on parent \<open>p\<close>, \<open>i\<close> the identity of the new cancel node;
  \<open>timerCtx i p d\<close> is \<^verbatim>\<open>WithDeadline\<close> with deadline \<open>d\<close>; \<open>valueCtx p k v\<close>
  is \<^verbatim>\<open>WithValue\<close>; \<open>signalCtx c sigs\<close> is the struct of this package,
  \<^verbatim>\<open>signalCtx{Context: c, signals: sigs}\<close>.
\<close>

datatype "context" =
    Background
  | cancelCtx nat "context"
  | timerCtx nat "context" nat
  | valueCtx "context" string string
  | signalCtx "context" "signal list"

text \<open>
  The shared state: for every cancel node the error and the cause it was
  canceled with by a call on the node itself (written at most once); the
  handlers of package \<^verbatim>\<open>os/signal\<close> (channel to the set of signal numbers it
  wants); the buffer and the capacity of every channel.
\<close>

record world =
  own :: "nat \<Rightarrow> (error \<times> error) option"
  handlers :: "nat \<Rightarrow> signal set option"
  buf :: "nat \<Rightarrow> signal list"
  cap :: "nat \<Rightarrow> nat"

text \<open>
  The cancellation state of a context: the first cancellation of the context
  or of one of its parents.  A node's own entry is only ever written while the
  node is not canceled (see \<open>cancel\<close>), so an own entry is older than any
  cancellation of a parent.  The embedded \<^verbatim>\<open>Context\<close> of a \<open>signalCtx\<close>
  promotes its methods, so every observation of a \<open>signalCtx\<close> is the embedded
  context's.
\<close>

fun ctx_state :: "world \<Rightarrow> context \<Rightarrow> (error \<times> error) option" where
  "ctx_state w Background = None"
| "ctx_state w (cancelCtx i p) = (case own w i of Some s \<Rightarrow> Some s | None \<Rightarrow> ctx_state w p)"
| "ctx_state w (timerCtx i p d) = (case own w i of Some s \<Rightarrow> Some s | None \<Rightarrow> ctx_state w p)"
| "ctx_state w (valueCtx p k v) = ctx_state w p"
| "ctx_state w (signalCtx c sigs) = ctx_state w c"

definition ctx_Err :: "world \<Rightarrow> context \<Rightarrow> error option" where
  "ctx_Err w c = map_option fst (ctx_state w c)"

definition Cause :: "world \<Rightarrow> context \<Rightarrow> error option" where
  "Cause w c = map_option snd (ctx_state w c)"

text \<open>\<^verbatim>\<open>Done()\<close>: the identity of the done channel (\<open>None\<close> is the nil channel).\<close>

fun ctx_Done :: "context \<Rightarrow> nat option" where
  "ctx_Done Background = None"
| "ctx_Done (cancelCtx i p) = Some i"
| "ctx_Done (timerCtx i p d) = Some i"
| "ctx_Done (valueCtx p k v) = ctx_Done p"
| "ctx_Done (signalCtx c sigs) = ctx_Done c"

text \<open>A receive from \<^verbatim>\<open>ctx.Done()\<close> is ready exactly when the context is canceled.\<close>

definition done_ready :: "world \<Rightarrow> context \<Rightarrow> bool" where
  "done_ready w c = (ctx_state w c \<noteq> None)"

fun ctx_Deadline :: "context \<Rightarrow> nat option" where
  "ctx_Deadline Background = None"
| "ctx_Deadline (cancelCtx i p) = ctx_Deadline p"
| "ctx_Deadline (timerCtx i p d) = Some d"
| "ctx_Deadline (valueCtx p k v) = ctx_Deadline p"
| "ctx_Deadline (signalCtx c sigs) = ctx_Deadline c"

fun ctx_Value :: "context \<Rightarrow> string \<Rightarrow> string option" where
  "ctx_Value Background key = None"
| "ctx_Value (cancelCtx i p) key = ctx_Value p key"
| "ctx_Value (timerCtx i p d) key = ctx_Value p key"
| "ctx_Value (valueCtx p k v) key = (if key = k then Some v else ctx_Value p key)"
| "ctx_Value (signalCtx c sigs) key = ctx_Value c key"

text \<open>
  \<^verbatim>\<open>FromContext\<close>.  The named results start as \<^verbatim>\<open>(nil, false)\<close>, which the bare
  \<^verbatim>\<open>return\<close> yields when \<^verbatim>\<open>errors.As\<close> fails.
\<close>

definition FromContext :: "world \<Rightarrow> context \<Rightarrow> os_Signal \<times> bool" where
  "FromContext w ctx =
     (case errors_As (Cause w ctx) of
        Some err \<Rightarrow> (Canceled_Signal err, True)
      | None \<Rightarrow> (None, False))"

text \<open>
  Canceling a context: the cancel function of a cancel node, called with an
  error and an optional cause.  A nil cause becomes the error; a node that is
  already canceled (by itself or through a parent) is left alone.
\<close>

fun node_of :: "context \<Rightarrow> nat option" where
  "node_of (cancelCtx i p) = Some i"
| "node_of (timerCtx i p d) = Some i"
| "node_of c = None"

definition cancel :: "context \<Rightarrow> error \<Rightarrow> error option \<Rightarrow> world \<Rightarrow> world" where
  "cancel c err cause w =
     (case node_of c of
        None \<Rightarrow> w
      | Some i \<Rightarrow>
          if ctx_state w c \<noteq> None then w
          else w\<lparr>own := (own w)(i \<mapsto> (err, case cause of None \<Rightarrow> err | Some e \<Rightarrow> e))\<rparr>)"

text \<open>
  \<^verbatim>\<open>context.WithCancelCause(parent)\<close>: a new cancel node \<open>i\<close>, not canceled by a
  call of its own.
\<close>

definition WithCancelCause :: "nat \<Rightarrow> world \<Rightarrow> world" where
  "WithCancelCause i w = w\<lparr>own := (own w)(i := None)\<rparr>"

text \<open>
  \<^verbatim>\<open>make(chan os.Signal, n)\<close>: a new channel \<open>c\<close> with an empty buffer of
  capacity \<open>n\<close>, unknown to \<^verbatim>\<open>os/signal\<close>.
\<close>

definition make_chan :: "nat \<Rightarrow> nat \<Rightarrow> world \<Rightarrow> world" where
  "make_chan c n w =
     w\<lparr>handlers := (handlers w)(c := None), buf := (buf w)(c := []), cap := (cap w)(c := n)\<rparr>"

text \<open>
  Package \<^verbatim>\<open>os/signal\<close>.  \<^verbatim>\<open>signum\<close> maps a signal to its number, or to \<open>-1\<close>
  when it is not one of the \<open>numSig\<close> signals.  \<^verbatim>\<open>Notify(c, sigs...)\<close> adds to the
  handler of \<open>c\<close> every signal when \<open>sigs\<close> is empty, and the valid listed ones
  otherwise.  \<^verbatim>\<open>Stop(c)\<close> removes the handler.  \<^verbatim>\<open>process(sig)\<close> is what the
  runtime calls when the process receives a signal: a send without blocking to
  every channel whose handler wants it (dropped when the buffer is full).
\<close>

definition numSig :: int where
  "numSig = 65"

definition signum :: "signal \<Rightarrow> int" where
  "signum s = (if s < 0 \<or> numSig \<le> s then - 1 else s)"

definition signal_Notify :: "nat \<Rightarrow> signal list \<Rightarrow> world \<Rightarrow> world" where
  "signal_Notify c sigs w =
     (let h = (case handlers w c of None \<Rightarrow> {} | Some m \<Rightarrow> m);
          add = (if sigs = [] then {0..<numSig} else {n \<in> signum ` set sigs. 0 \<le> n})
      in w\<lparr>handlers := (handlers w)(c \<mapsto> h \<union> add)\<rparr>)"

definition signal_Stop :: "nat \<Rightarrow> world \<Rightarrow> world" where
  "signal_Stop c w = w\<lparr>handlers := (handlers w)(c := None)\<rparr>"

definition wants :: "world \<Rightarrow> nat \<Rightarrow> signal \<Rightarrow> bool" where
  "wants w c s = (case handlers w c of None \<Rightarrow> False | Some m \<Rightarrow> s \<in> m)"

definition process :: "signal \<Rightarrow> world \<Rightarrow> world" where
  "process s w =
     w\<lparr>buf := (\<lambda>c. if wants w c s \<and> length (buf w c) < cap w c
                    then buf w c @ [s] else buf w c)\<rparr>"

text \<open>A receive from a channel whose buffer is not empty.\<close>

definition recv :: "nat \<Rightarrow> world \<Rightarrow> world" where
  "recv c w = w\<lparr>buf := (buf w)(c := tl (buf w c))\<rparr>"

text \<open>
  What the rest of the program and the operating system do while a call of
  this package is under way: the process receives a signal; somebody calls the
  cancel function of a context, with or without a cause; the timer of a
  deadline context fires.
\<close>

datatype event =
    Raise signal
  | CancelCause "context" "error option"
  | DeadlinePassed "context"

fun apply_event :: "event \<Rightarrow> world \<Rightarrow> world" where
  "apply_event (Raise s) w = process s w"
| "apply_event (CancelCause c cause) w = cancel c context_Canceled cause w"
| "apply_event (DeadlinePassed c) w = cancel c context_DeadlineExceeded None w"

section \<open>The description of a context\<close>

text \<open>
  \<^verbatim>\<open>contextName\<close> of package \<^verbatim>\<open>context\<close> and the \<^verbatim>\<open>String\<close> method of
  \<open>signalCtx\<close>.  The name of a signal (\<^verbatim>\<open>s.String()\<close>) and the rendering of a
  deadline belong to the platform: they are the parameters \<open>sn\<close> and \<open>dn\<close>.
  The method cuts the last \<^verbatim>\<open>len(".WithCancel")\<close> bytes off the name of the
  embedded context; the slice expression would panic on a shorter name, and no
  name is shorter (lemma \<open>contextName_length\<close>).
\<close>

fun join_signals :: "(signal \<Rightarrow> string) \<Rightarrow> signal list \<Rightarrow> string" where
  "join_signals sn [] = []"
| "join_signals sn [s] = sn s"
| "join_signals sn (s # ss) = sn s @ '' '' @ join_signals sn ss"

fun contextName :: "(signal \<Rightarrow> string) \<Rightarrow> (nat \<Rightarrow> string) \<Rightarrow> context \<Rightarrow> string" where
  "contextName sn dn Background = ''context.Background''"
| "contextName sn dn (cancelCtx i p) = contextName sn dn p @ ''.WithCancel''"
| "contextName sn dn (timerCtx i p d) =
     contextName sn dn p @ ''.WithDeadline('' @ dn d @ '')''"
| "contextName sn dn (valueCtx p k v) =
     contextName sn dn p @ ''.WithValue('' @ k @ '', '' @ v @ '')''"
| "contextName sn dn (signalCtx c sigs) =
     (let name = contextName sn dn c;
          name = take (length name - length ''.WithCancel'') name
      in ''signals.NotifyContext('' @ name
         @ (if length sigs \<noteq> 0 then '', ['' @ join_signals sn sigs @ '']'' else [])
         @ '')'')"

section \<open>Schedules\<close>

text \<open>
  The calls of this package run beside the rest of the program.  A schedule
  lists, in the order they happen: an event of the environment; a step of the
  goroutine that made the call; a step of the goroutine the call started.  The
  flag of a step is the pick of a \<^verbatim>\<open>select\<close> when more than one of its cases is
  ready (the Go runtime picks at random).
\<close>

datatype tick = Env event | Main bool | Goroutine bool

text \<open>
  \<^verbatim>\<open>select { case sig := <-ch: ... case <-ctx.Done(): ... }\<close>: the case that
  runs, given the pick \<open>b\<close>.
\<close>

datatype choice = FromChannel | FromDone | Blocked

definition select2 :: "bool \<Rightarrow> nat \<Rightarrow> context \<Rightarrow> world \<Rightarrow> choice" where
  "select2 b ch ctx w =
     (if buf w ch \<noteq> [] \<and> done_ready w ctx then (if b then FromChannel else FromDone)
      else if buf w ch \<noteq> [] then FromChannel
      else if done_ready w ctx then FromDone
      else Blocked)"

section \<open>Wait\<close>

text \<open>
  The places of a call of \<^verbatim>\<open>Wait\<close>: before \<^verbatim>\<open>make\<close> and \<^verbatim>\<open>signal.Notify\<close>; at
  the \<^verbatim>\<open>select\<close>; after the \<^verbatim>\<open>return\<close> with the deferred \<^verbatim>\<open>signal.Stop\<close> still to
  run; returned.  \<open>ch\<close> is the identity of the channel that \<^verbatim>\<open>make\<close> yields.
\<close>

datatype wpc = W_start | W_select | W_deferred os_Signal | W_returned os_Signal

fun Wait_step :: "context \<Rightarrow> signal list \<Rightarrow> nat \<Rightarrow> tick \<Rightarrow> wpc \<times> world \<Rightarrow> wpc \<times> world" where
  "Wait_step ctx sigs ch (Env e) (pc, w) = (pc, apply_event e w)"
| "Wait_step ctx sigs ch (Goroutine b) cfg = cfg"
| "Wait_step ctx sigs ch (Main b) (W_start, w) =
     (W_select, signal_Notify ch sigs (make_chan ch 1 w))"
| "Wait_step ctx sigs ch (Main b) (W_select, w) =
     (case select2 b ch ctx w of
        FromChannel \<Rightarrow> (W_deferred (Some (hd (buf w ch))), recv ch w)
      | FromDone \<Rightarrow> (W_deferred None, w)
      | Blocked \<Rightarrow> (W_select, w))"
| "Wait_step ctx sigs ch (Main b) (W_deferred r, w) = (W_returned r, signal_Stop ch w)"
| "Wait_step ctx sigs ch (Main b) (W_returned r, w) = (W_returned r, w)"

definition Wait_exec :: "context \<Rightarrow> signal list \<Rightarrow> nat \<Rightarrow> tick list \<Rightarrow> world \<Rightarrow> wpc \<times> world" where
  "Wait_exec ctx sigs ch sched w = foldl (\<lambda>cfg t. Wait_step ctx sigs ch t cfg) (W_start, w) sched"

text \<open>
  The result of \<^verbatim>\<open>Wait\<close> under a schedule: \<open>Some r\<close> when the call has returned
  \<open>r\<close>, \<open>None\<close> while it has not.
\<close>

definition Wait :: "context \<Rightarrow> signal list \<Rightarrow> nat \<Rightarrow> tick list \<Rightarrow> world \<Rightarrow> os_Signal option" where
  "Wait ctx sigs ch sched w =
     (case fst (Wait_exec ctx sigs ch sched w) of W_returned r \<Rightarrow> Some r | _ \<Rightarrow> None)"

section \<open>NotifyContext\<close>

text \<open>
  How \<^verbatim>\<open>run\<close> ends: it returns an error (or nil), or it panics.
\<close>

datatype outcome = Returned "error option" | Panicked

text \<open>
  The function \<^verbatim>\<open>run\<close> is any Go function: a transition system over a local
  state of its own, started on the context it is given.  A step reads the
  shared state, performs events (it may raise signals and call the cancel
  functions it holds) and either goes on or ends.
\<close>

record 's runner =
  run_start :: "context \<Rightarrow> 's"
  run_step :: "'s \<Rightarrow> world \<Rightarrow> event list \<times> ('s + outcome)"

text \<open>
  The cancel function of the derived context is a local variable of
  \<^verbatim>\<open>NotifyContext\<close>: only its goroutine and its deferred call hold it.  Every
  other event on that very node has no caller, and is skipped.
\<close>

fun event_node :: "event \<Rightarrow> nat option" where
  "event_node (Raise s) = None"
| "event_node (CancelCause c cause) = node_of c"
| "event_node (DeadlinePassed c) = node_of c"

definition outside_event :: "nat \<Rightarrow> event \<Rightarrow> world \<Rightarrow> world" where
  "outside_event cid e w = (if event_node e = Some cid then w else apply_event e w)"

definition outside_events :: "nat \<Rightarrow> event list \<Rightarrow> world \<Rightarrow> world" where
  "outside_events cid es w = foldl (\<lambda>w e. outside_event cid e w) w es"

text \<open>
  The two versions of \<^verbatim>\<open>NotifyContext\<close> in the repository.  \<open>WithCause\<close> is the
  one that derives the context with \<^verbatim>\<open>context.WithCancelCause\<close> and starts its
  own goroutine; \<open>Relayed\<close> is the one of \<^verbatim>\<open>notify.go\<close>, which calls
  \<^verbatim>\<open>signal.NotifyContext\<close> of the standard library and defers its stop function.
  The library function has the same shape, but cancels without a cause, and
  its stop function cancels before it calls \<^verbatim>\<open>signal.Stop\<close>.
\<close>

datatype version = WithCause | Relayed

definition signal_cause :: "version \<Rightarrow> signal \<Rightarrow> error option" where
  "signal_cause v s =
     (case v of WithCause \<Rightarrow> Some (SignalCanceled (Canceled (Some s))) | Relayed \<Rightarrow> None)"

definition deferred1 :: "version \<Rightarrow> context \<Rightarrow> nat \<Rightarrow> world \<Rightarrow> world" where
  "deferred1 v child ch w =
     (case v of WithCause \<Rightarrow> signal_Stop ch w | Relayed \<Rightarrow> cancel child context_Canceled None w)"

definition deferred2 :: "version \<Rightarrow> context \<Rightarrow> nat \<Rightarrow> world \<Rightarrow> world" where
  "deferred2 v child ch w =
     (case v of WithCause \<Rightarrow> cancel child context_Canceled None w | Relayed \<Rightarrow> signal_Stop ch w)"

text \<open>
  The goroutine of \<^verbatim>\<open>NotifyContext\<close>: not started, at its \<^verbatim>\<open>select\<close>, holding
  a received signal with the call of \<^verbatim>\<open>cancel\<close> still to come, or finished.
\<close>

datatype lstate = NotStarted | Selecting | Received signal | Exited

text \<open>
  The places of the calling goroutine: before \<^verbatim>\<open>WithCancelCause\<close>; before
  \<^verbatim>\<open>make\<close> and \<^verbatim>\<open>signal.Notify\<close>; before the test of \<^verbatim>\<open>ctx.Err()\<close>; inside
  \<^verbatim>\<open>run\<close>; \<^verbatim>\<open>run\<close> has ended and two deferred calls are to run; one deferred
  call is to run; the call has ended with the outcome of \<^verbatim>\<open>run\<close>.
\<close>

datatype 's npc =
    N_start
  | N_derived
  | N_notified
  | N_running 's
  | N_deferred1 outcome
  | N_deferred2 outcome
  | N_exited outcome

text \<open>
  One step.  \<open>cid\<close> and \<open>ch\<close> are the identities of the cancel node that
  \<^verbatim>\<open>WithCancelCause\<close> creates and of the channel that \<^verbatim>\<open>make\<close> creates.
\<close>

fun NotifyContext_step ::
  "version \<Rightarrow> context \<Rightarrow> 's runner \<Rightarrow> signal list \<Rightarrow> nat \<Rightarrow> nat \<Rightarrow> tick
   \<Rightarrow> 's npc \<times> lstate \<times> world \<Rightarrow> 's npc \<times> lstate \<times> world" where
  "NotifyContext_step v parent run sigs cid ch (Env e) (pc, l, w) =
     (pc, l, outside_event cid e w)"
| "NotifyContext_step v parent run sigs cid ch (Main b) (N_start, l, w) =
     (N_derived, l, WithCancelCause cid w)"
| "NotifyContext_step v parent run sigs cid ch (Main b) (N_derived, l, w) =
     (N_notified, l, signal_Notify ch sigs (make_chan ch 1 w))"
| "NotifyContext_step v parent run sigs cid ch (Main b) (N_notified, l, w) =
     (N_running (run_start run (signalCtx (cancelCtx cid parent) sigs)),
      (if ctx_Err w (cancelCtx cid parent) = None then Selecting else l), w)"
| "NotifyContext_step v parent run sigs cid ch (Main b) (N_running s, l, w) =
     (case run_step run s w of
        (es, Inl s') \<Rightarrow> (N_running s', l, outside_events cid es w)
      | (es, Inr out) \<Rightarrow> (N_deferred1 out, l, outside_events cid es w))"
| "NotifyContext_step v parent run sigs cid ch (Main b) (N_deferred1 out, l, w) =
     (N_deferred2 out, l, deferred1 v (cancelCtx cid parent) ch w)"
| "NotifyContext_step v parent run sigs cid ch (Main b) (N_deferred2 out, l, w) =
     (N_exited out, l, deferred2 v (cancelCtx cid parent) ch w)"
| "NotifyContext_step v parent run sigs cid ch (Main b) (N_exited out, l, w) =
     (N_exited out, l, w)"
| "NotifyContext_step v parent run sigs cid ch (Goroutine b) (pc, Selecting, w) =
     (case select2 b ch (cancelCtx cid parent) w of
        FromChannel \<Rightarrow> (pc, Received (hd (buf w ch)), recv ch w)
      | FromDone \<Rightarrow> (pc, Exited, w)
      | Blocked \<Rightarrow> (pc, Selecting, w))"
| "NotifyContext_step v parent run sigs cid ch (Goroutine b) (pc, Received s, w) =
     (pc, Exited, cancel (cancelCtx cid parent) context_Canceled (signal_cause v s) w)"
| "NotifyContext_step v parent run sigs cid ch (Goroutine b) (pc, l, w) = (pc, l, w)"

definition NotifyContext_exec ::
  "version \<Rightarrow> context \<Rightarrow> 's runner \<Rightarrow> signal list \<Rightarrow> nat \<Rightarrow> nat \<Rightarrow> tick list \<Rightarrow> world
   \<Rightarrow> 's npc \<times> lstate \<times> world" where
  "NotifyContext_exec v parent run sigs cid ch sched w =
     foldl (\<lambda>cfg t. NotifyContext_step v parent run sigs cid ch t cfg) (N_start, NotStarted, w) sched"

text \<open>
  The outcome of a call under a schedule: \<open>Some out\<close> when the call has ended,
  \<open>None\<close> while it has not.  \<open>Returned e\<close> is the value the call returns;
  \<open>Panicked\<close> is the panic of \<^verbatim>\<open>run\<close> passing through the call.
\<close>

definition outcome_of :: "'s npc \<times> lstate \<times> world \<Rightarrow> outcome option" where
  "outcome_of cfg = (case fst cfg of N_exited out \<Rightarrow> Some out | _ \<Rightarrow> None)"

definition NotifyContext ::
  "context \<Rightarrow> 's runner \<Rightarrow> signal list \<Rightarrow> nat \<Rightarrow> nat \<Rightarrow> tick list \<Rightarrow> world \<Rightarrow> outcome option" where
  "NotifyContext parent run sigs cid ch sched w =
     outcome_of (NotifyContext_exec WithCause parent run sigs cid ch sched w)"

definition NotifyContext_relayed ::
  "context \<Rightarrow> 's runner \<Rightarrow> signal list \<Rightarrow> nat \<Rightarrow> nat \<Rightarrow> tick list \<Rightarrow> world \<Rightarrow> outcome option" where
  "NotifyContext_relayed parent run sigs cid ch sched w =
     outcome_of (NotifyContext_exec Relayed parent run sigs cid ch sched w)"

section \<open>Auxiliary notions used in the statements\<close>

text \<open>
  An error is, or wraps through its chain of \<^verbatim>\<open>Unwrap\<close> methods, a given
  \<^verbatim>\<open>Canceled\<close> value, with no other \<^verbatim>\<open>Canceled\<close> value before it on the chain.
\<close>

inductive holds_Canceled :: "error \<Rightarrow> Canceled \<Rightarrow> bool" where
  is_Canceled: "holds_Canceled (SignalCanceled s) s"
| in_wrapError: "holds_Canceled e s \<Longrightarrow> holds_Canceled (wrapError msg e) s"

text \<open>The cancel nodes a context is built from.\<close>

fun nodes_of :: "context \<Rightarrow> nat set" where
  "nodes_of Background = {}"
| "nodes_of (cancelCtx i p) = insert i (nodes_of p)"
| "nodes_of (timerCtx i p d) = insert i (nodes_of p)"
| "nodes_of (valueCtx p k v) = nodes_of p"
| "nodes_of (signalCtx c sigs) = nodes_of c"

text \<open>
  The signals a call with the argument list \<open>sigs\<close> subscribes to: every signal
  number when the list is empty, the listed signal numbers otherwise.
\<close>

definition subscribed :: "signal list \<Rightarrow> signal \<Rightarrow> bool" where
  "subscribed sigs s = (0 \<le> s \<and> s < numSig \<and> (sigs = [] \<or> s \<in> set sigs))"

text \<open>The signals that the events of a list raise, in order.\<close>

fun raised :: "event list \<Rightarrow> signal list" where
  "raised [] = []"
| "raised (Raise s # es) = s # raised es"
| "raised (e # es) = raised es"

text \<open>A state in which nothing is canceled, subscribed or buffered.\<close>

definition idle :: world where
  "idle = \<lparr>own = (\<lambda>i. None), handlers = (\<lambda>c. None), buf = (\<lambda>c. []), cap = (\<lambda>c. 0)\<rparr>"

text \<open>The events of the environment in a schedule, in order.\<close>

fun env_events :: "tick list \<Rightarrow> event list" where
  "env_events [] = []"
| "env_events (Env e # ts) = e # env_events ts"
| "env_events (t # ts) = env_events ts"

text \<open>
  The subscription of a call as the signal registry holds it: the handler of
  the channel wants exactly the subscribed signals, and the channel has room
  for one signal.
\<close>

definition registered :: "signal list \<Rightarrow> nat \<Rightarrow> world \<Rightarrow> bool" where
  "registered sigs ch w = (handlers w ch = Some {s. subscribed sigs s} \<and> cap w ch = 1)"

text \<open>
  The condition ``the context becomes done before any signal of the list is
  delivered to the queue of the call'', read along a schedule from a
  configuration on: at the first moment at which the context is done or a
  signal has been delivered to the queue, it is the context that is done.
\<close>

fun delivered :: "nat \<Rightarrow> wpc \<times> world \<Rightarrow> bool" where
  "delivered ch (W_start, w) = False"
| "delivered ch (W_select, w) = (buf w ch \<noteq> [])"
| "delivered ch (W_deferred r, w) = (r \<noteq> None \<or> buf w ch \<noteq> [])"
| "delivered ch (W_returned r, w) = (r \<noteq> None \<or> buf w ch \<noteq> [])"

fun done_first :: "context \<Rightarrow> signal list \<Rightarrow> nat \<Rightarrow> tick list \<Rightarrow> wpc \<times> world \<Rightarrow> bool" where
  "done_first ctx sigs ch [] cfg = (done_ready (snd cfg) ctx \<and> \<not> delivered ch cfg)"
| "done_first ctx sigs ch (t # ts) cfg =
     (if delivered ch cfg then False
      else if done_ready (snd cfg) ctx then True
      else done_first ctx sigs ch ts (Wait_step ctx sigs ch t cfg))"

section \<open>Invariants of the two calls\<close>

text \<open>
  What holds at every place of a call of \<^verbatim>\<open>Wait\<close>: from the registration to the
  deferred \<^verbatim>\<open>signal.Stop\<close> the channel is registered for the subscribed
  signals, it buffers at most one of them, and a signal on its way out is a
  subscribed one; after the deferred call the channel has no handler.
\<close>

fun Wait_inv :: "signal list \<Rightarrow> nat \<Rightarrow> wpc \<times> world \<Rightarrow> bool" where
  "Wait_inv sigs ch (W_start, w) = True"
| "Wait_inv sigs ch (W_select, w) =
     (registered sigs ch w \<and> length (buf w ch) \<le> 1 \<and> (\<forall>s \<in> set (buf w ch). subscribed sigs s))"
| "Wait_inv sigs ch (W_deferred r, w) =
     (registered sigs ch w \<and> (\<forall>s. r = Some s \<longrightarrow> subscribed sigs s))"
| "Wait_inv sigs ch (W_returned r, w) =
     (handlers w ch = None \<and> (\<forall>s. r = Some s \<longrightarrow> subscribed sigs s))"

text \<open>A call of \<^verbatim>\<open>Wait\<close> is on its way out with nil only when the context is done.\<close>

fun Wait_nil_inv :: "context \<Rightarrow> wpc \<times> world \<Rightarrow> bool" where
  "Wait_nil_inv ctx (W_deferred None, w) = done_ready w ctx"
| "Wait_nil_inv ctx (W_returned None, w) = done_ready w ctx"
| "Wait_nil_inv ctx cfg = True"

text \<open>
  Every signal in the buffer of the call, or on its way out, is one of a set
  \<open>R\<close> (the signals raised so far).
\<close>

fun Wait_sig_inv :: "nat \<Rightarrow> signal set \<Rightarrow> wpc \<times> world \<Rightarrow> bool" where
  "Wait_sig_inv ch R (W_start, w) = True"
| "Wait_sig_inv ch R (W_select, w) = (set (buf w ch) \<subseteq> R)"
| "Wait_sig_inv ch R (W_deferred r, w) = (\<forall>s. r = Some s \<longrightarrow> s \<in> R)"
| "Wait_sig_inv ch R (W_returned r, w) = (\<forall>s. r = Some s \<longrightarrow> s \<in> R)"

text \<open>The buffer of the call's channel holds at most one signal, a subscribed one.\<close>

definition buf_ok :: "signal list \<Rightarrow> nat \<Rightarrow> world \<Rightarrow> bool" where
  "buf_ok sigs ch w = (length (buf w ch) \<le> 1 \<and> (\<forall>s \<in> set (buf w ch). subscribed sigs s))"

text \<open>The channel is registered for the subscribed signals, or it has no handler.\<close>

definition registered_or_released :: "signal list \<Rightarrow> nat \<Rightarrow> world \<Rightarrow> bool" where
  "registered_or_released sigs ch w = (registered sigs ch w \<or> handlers w ch = None)"

text \<open>A signal the goroutine has received is a subscribed one.\<close>

definition lsub :: "signal list \<Rightarrow> lstate \<Rightarrow> bool" where
  "lsub sigs l = (\<forall>s. l = Received s \<longrightarrow> subscribed sigs s)"

text \<open>
  What holds at every place of a call of \<^verbatim>\<open>NotifyContext\<close>, about its
  subscription and its goroutine.  In the version of \<^verbatim>\<open>notify.go\<close> the second
  deferred step is the one that calls \<^verbatim>\<open>signal.Stop\<close>.
\<close>

fun NC_inv :: "version \<Rightarrow> signal list \<Rightarrow> nat \<Rightarrow> 's npc \<times> lstate \<times> world \<Rightarrow> bool" where
  "NC_inv v sigs ch (N_start, l, w) = (l = NotStarted)"
| "NC_inv v sigs ch (N_derived, l, w) = (l = NotStarted)"
| "NC_inv v sigs ch (N_notified, l, w) = (l = NotStarted \<and> registered sigs ch w \<and> buf_ok sigs ch w)"
| "NC_inv v sigs ch (N_running s, l, w) = (registered sigs ch w \<and> buf_ok sigs ch w \<and> lsub sigs l)"
| "NC_inv v sigs ch (N_deferred1 out, l, w) = (registered sigs ch w \<and> buf_ok sigs ch w \<and> lsub sigs l)"
| "NC_inv v sigs ch (N_deferred2 out, l, w) =
     ((if v = Relayed then registered sigs ch w else handlers w ch = None)
      \<and> buf_ok sigs ch w \<and> lsub sigs l)"
| "NC_inv v sigs ch (N_exited out, l, w) = (handlers w ch = None \<and> buf_ok sigs ch w \<and> lsub sigs l)"




text \<open>
  A call on a parent that is canceled: the parent stays canceled, the goroutine
  is never started, and the derived context has no entry of its own.
\<close>

fun NC_parent_inv :: "context \<Rightarrow> nat \<Rightarrow> 's npc \<times> lstate \<times> world \<Rightarrow> bool" where
  "NC_parent_inv parent cid (pc, l, w) =
     (ctx_state w parent \<noteq> None \<and> l = NotStarted \<and> (pc \<noteq> N_start \<longrightarrow> own w cid = None))"

text \<open>\<^verbatim>\<open>run\<close> has ended with the outcome \<open>out\<close>.\<close>

definition ended :: "'s npc \<Rightarrow> outcome \<Rightarrow> bool" where
  "ended pc out = (pc = N_deferred1 out \<or> pc = N_deferred2 out \<or> pc = N_exited out)"

section \<open>The functions of the package's examples\<close>

definition SIGINT :: signal where
  "SIGINT = 2"

definition SIGTERM :: signal where
  "SIGTERM = 15"

text \<open>
  \<^verbatim>\<open>runN\<close> of the example of \<^verbatim>\<open>NotifyContext\<close>: it sends \<^verbatim>\<open>SIGINT\<close> to its own
  process, waits for \<^verbatim>\<open>ctx.Done()\<close> and returns nil.
\<close>

datatype runN_pc = Kill | AwaitDone

definition runN :: "(runN_pc \<times> context) runner" where
  "runN =
     \<lparr>run_start = (\<lambda>c. (Kill, c)),
      run_step = (\<lambda>(p, c) w.
        case p of
          Kill \<Rightarrow> ([Raise SIGINT], Inl (AwaitDone, c))
        | AwaitDone \<Rightarrow>
            if done_ready w c then ([], Inr (Returned None)) else ([], Inl (AwaitDone, c)))\<rparr>"

text \<open>A \<^verbatim>\<open>run\<close> that returns an error at once, and one that panics at once.\<close>

definition run_fails :: "unit runner" where
  "run_fails =
     \<lparr>run_start = (\<lambda>c. ()),
      run_step = (\<lambda>s w. ([], Inr (Returned (Some (errorString ''boom'')))))\<rparr>"

definition run_panics :: "unit runner" where
  "run_panics = \<lparr>run_start = (\<lambda>c. ()), run_step = (\<lambda>s w. ([], Inr Panicked))\<rparr>"

text \<open>The names of the two signals of the example, as \<^verbatim>\<open>syscall.Signal.String\<close> gives them.\<close>

definition signal_name :: "signal \<Rightarrow> string" where
  "signal_name s =
     (if s = SIGINT then ''interrupt'' else if s = SIGTERM then ''terminated'' else ''signal'')"

text \<open>
  The example up to the moment \<^verbatim>\<open>runN\<close> has seen its context done: the three
  steps of the setup, the step of \<^verbatim>\<open>runN\<close> that raises \<^verbatim>\<open>SIGINT\<close>, the two steps
  of the goroutine.  The state it leaves is \<open>example_world\<close>, the context
  \<^verbatim>\<open>runN\<close> holds is \<open>example_ctx\<close>.
\<close>

definition example_sched :: "tick list" where
  "example_sched =
     [Main True, Main True, Main True, Main True, Goroutine True, Goroutine True]"

definition example_ctx :: "context" where
  "example_ctx = signalCtx (cancelCtx 0 Background) [SIGINT, SIGTERM]"

definition example_world :: world where
  "example_world =
     snd (snd (NotifyContext_exec WithCause Background runN [SIGINT, SIGTERM] 0 0 example_sched idle))"

text \<open>
  A call of \<^verbatim>\<open>NotifyContext\<close> nested in the example: while \<^verbatim>\<open>runN\<close> holds its
  context, canceled by \<^verbatim>\<open>SIGINT\<close>, it calls \<^verbatim>\<open>NotifyContext\<close> on that context for
  \<^verbatim>\<open>SIGTERM\<close>.  \<open>nested_world\<close> is the state once the inner \<^verbatim>\<open>run\<close> has been
  started, \<open>nested_ctx\<close> the context the inner \<^verbatim>\<open>run\<close> holds.
\<close>

definition nested_ctx :: "context" where
  "nested_ctx = signalCtx (cancelCtx 1 example_ctx) [SIGTERM]"

definition nested_world :: world where
  "nested_world =
     snd (snd (NotifyContext_exec WithCause example_ctx run_fails [SIGTERM] 1 1
       [Main True, Main True, Main True] example_world))"

text \<open>A state in which the context \<open>cancelCtx 0 Background\<close> was canceled by a plain call.\<close>

definition canceled_world :: world where
  "canceled_world = apply_event (CancelCause (cancelCtx 0 Background) None) idle"

section \<open>Lemmas\<close>

lemma errors_As_chain_simps [simp]:
  "errors_As_chain (SignalCanceled s) = Some s"
  "errors_As_chain context_Canceled = None"
  "errors_As_chain context_DeadlineExceeded = None"
  "errors_As_chain (errorString m) = None"
  "errors_As_chain (wrapError m e) = errors_As_chain e"
  by (simp_all add: errors_As_chain.simps)

lemma errors_Is_chain_Canceled [simp]:
  "errors_Is_chain (SignalCanceled s) context_Canceled"
  by (simp add: errors_Is_chain.simps [of "SignalCanceled s"] errors_Is_chain.simps [of context_Canceled] Canceled_Unwrap_def)

lemma errors_Is_chain_refl [simp]: "errors_Is_chain e e"
  by (simp add: errors_Is_chain.simps [of e])

lemma errors_As_chain_holds: "errors_As_chain e = Some s \<longleftrightarrow> holds_Canceled e s"
proof
  show "errors_As_chain e = Some s \<Longrightarrow> holds_Canceled e s"
    by (induction e) (auto intro: holds_Canceled.intros)
  show "holds_Canceled e s \<Longrightarrow> errors_As_chain e = Some s"
    by (induction rule: holds_Canceled.induct) auto
qed


lemma FromContext_False: 
  "snd (FromContext w ctx) = False \<longleftrightarrow> FromContext w ctx = (None, False)"
  by (auto simp: FromContext_def split: option.splits)

lemma FromContext_no_cause: "Cause w ctx = None \<Longrightarrow> FromContext w ctx = (None, False)"
  by (simp add: FromContext_def errors_As_def)

lemma contextName_length: "18 \<le> length (contextName sn dn c)"
  by (induction c) (simp_all add: Let_def)

lemma last_signalCtx: "last (contextName sn dn (signalCtx c sigs)) = CHR '')''"
  by (simp add: Let_def)

lemma last_cancelCtx: "last (contextName sn dn (cancelCtx i p)) = CHR ''l''"
  by simp

lemma contextName_signalCtx_neq:
  "contextName sn dn (signalCtx (cancelCtx i p) sigs) \<noteq> contextName sn dn (cancelCtx i p)"
proof
  assume "contextName sn dn (signalCtx (cancelCtx i p) sigs) = contextName sn dn (cancelCtx i p)"
  then have "last (contextName sn dn (signalCtx (cancelCtx i p) sigs)) = last (contextName sn dn (cancelCtx i p))"
    by (rule arg_cong)
  then show False unfolding last_signalCtx last_cancelCtx by simp
qed

subsection \<open>Effects of the primitives, field by field\<close>

lemma process_fields [simp]:
  "own (process s w) = own w"
  "handlers (process s w) = handlers w"
  "cap (process s w) = cap w"
  "buf (process s w) c =
     (if wants w c s \<and> length (buf w c) < cap w c then buf w c @ [s] else buf w c)"
  by (simp_all add: process_def)

lemma cancel_fields [simp]:
  "handlers (cancel c err cause w) = handlers w"
  "cap (cancel c err cause w) = cap w"
  "buf (cancel c err cause w) = buf w"
  by (simp_all add: cancel_def split: option.splits)

lemma apply_event_fields [simp]:
  "handlers (apply_event e w) = handlers w"
  "cap (apply_event e w) = cap w"
  by (cases e; simp)+

lemma make_chan_fields [simp]:
  "own (make_chan c n w) = own w"
  "handlers (make_chan c n w) = (handlers w)(c := None)"
  "buf (make_chan c n w) = (buf w)(c := [])"
  "cap (make_chan c n w) = (cap w)(c := n)"
  by (simp_all add: make_chan_def)

lemma signal_Notify_fields [simp]:
  "own (signal_Notify c sigs w) = own w"
  "buf (signal_Notify c sigs w) = buf w"
  "cap (signal_Notify c sigs w) = cap w"
  by (simp_all add: signal_Notify_def Let_def)

lemma signal_Stop_fields [simp]:
  "own (signal_Stop c w) = own w"
  "buf (signal_Stop c w) = buf w"
  "cap (signal_Stop c w) = cap w"
  "handlers (signal_Stop c w) = (handlers w)(c := None)"
  by (simp_all add: signal_Stop_def)

lemma recv_fields [simp]:
  "own (recv c w) = own w"
  "handlers (recv c w) = handlers w"
  "cap (recv c w) = cap w"
  "buf (recv c w) = (buf w)(c := tl (buf w c))"
  by (simp_all add: recv_def)

lemma WithCancelCause_fields [simp]:
  "own (WithCancelCause i w) = (own w)(i := None)"
  "handlers (WithCancelCause i w) = handlers w"
  "buf (WithCancelCause i w) = buf w"
  "cap (WithCancelCause i w) = cap w"
  by (simp_all add: WithCancelCause_def)

lemma wants_frame [simp]:
  "wants (process s' w) c s = wants w c s"
  "wants (cancel ctx err cause w) c s = wants w c s"
  "wants (apply_event e w) c s = wants w c s"
  "wants (recv c' w) c s = wants w c s"
  by (simp_all add: wants_def)

subsection \<open>The cancellation state depends on the own entries only\<close>

lemma ctx_state_own_cong: "own w' = own w \<Longrightarrow> ctx_state w' c = ctx_state w c"
  by (induction c) (simp_all split: option.splits)

lemma ctx_state_frame [simp]:
  "ctx_state (process s w) c = ctx_state w c"
  "ctx_state (make_chan ch n w) c = ctx_state w c"
  "ctx_state (signal_Notify ch sigs w) c = ctx_state w c"
  "ctx_state (signal_Stop ch w) c = ctx_state w c"
  "ctx_state (recv ch w) c = ctx_state w c"
  by (rule ctx_state_own_cong; simp)+

lemma done_ready_frame [simp]:
  "done_ready (process s w) c = done_ready w c"
  "done_ready (make_chan ch n w) c = done_ready w c"
  "done_ready (signal_Notify ch sigs w) c = done_ready w c"
  "done_ready (signal_Stop ch w) c = done_ready w c"
  "done_ready (recv ch w) c = done_ready w c"
  by (simp_all add: done_ready_def)

text \<open>A cancel call only adds own entries.\<close>

lemma own_cancel_mono: "own w i = Some x \<Longrightarrow> own (cancel c err cause w) i = Some x"
proof (cases "node_of c = Some i")
  case True
  assume "own w i = Some x"
  with True have "ctx_state w c = Some x" by (cases c) simp_all
  then show ?thesis using \<open>own w i = Some x\<close> by (simp add: cancel_def split: option.splits)
next
  case False
  assume "own w i = Some x"
  with False show ?thesis by (simp add: cancel_def split: option.splits)
qed

lemma own_apply_event_mono: "own w i = Some x \<Longrightarrow> own (apply_event e w) i = Some x"
  by (cases e) (simp_all add: own_cancel_mono)

lemma ctx_state_mono:
  assumes "\<And>i. own w i \<noteq> None \<Longrightarrow> own w' i \<noteq> None"
  shows "ctx_state w c \<noteq> None \<Longrightarrow> ctx_state w' c \<noteq> None"
proof (induction c)
  case (cancelCtx i p)
  then show ?case using assms [of i] by (cases "own w i"; cases "own w' i") simp_all
next
  case (timerCtx i p d)
  then show ?case using assms [of i] by (cases "own w i"; cases "own w' i") simp_all
qed simp_all

lemma done_ready_apply_event: "done_ready w c \<Longrightarrow> done_ready (apply_event e w) c"
  unfolding done_ready_def
  by (rule ctx_state_mono [of w]) (use own_apply_event_mono in fastforce)+

subsection \<open>Registration\<close>

lemma Notify_fresh_handlers:
  "handlers (signal_Notify ch sigs (make_chan ch n w)) ch = Some {s. subscribed sigs s}"
  by (auto simp: signal_Notify_def Let_def subscribed_def signum_def numSig_def image_iff)

lemma Notify_fresh_wants:
  "wants (signal_Notify ch sigs (make_chan ch n w)) ch s = subscribed sigs s"
  by (simp add: wants_def Notify_fresh_handlers)

lemma foldl_invariant:
  assumes "P s" and "\<And>s x. P s \<Longrightarrow> P (f s x)"
  shows "P (foldl f s xs)"
  using assms(1) by (induction xs arbitrary: s) (auto intro: assms(2))

subsection \<open>Executions of Wait\<close>

lemma Wait_exec_Nil [simp]: "Wait_exec ctx sigs ch [] w = (W_start, w)"
  by (simp add: Wait_exec_def)

lemma Wait_exec_snoc [simp]:
  "Wait_exec ctx sigs ch (sched @ [t]) w = Wait_step ctx sigs ch t (Wait_exec ctx sigs ch sched w)"
  by (simp add: Wait_exec_def)

lemma Wait_exec_append:
  "Wait_exec ctx sigs ch (s1 @ s2) w =
     foldl (\<lambda>cfg t. Wait_step ctx sigs ch t cfg) (Wait_exec ctx sigs ch s1 w) s2"
  by (simp add: Wait_exec_def)

lemma registered_frame [simp]:
  "registered sigs ch (apply_event e w) = registered sigs ch w"
  "registered sigs ch (recv c w) = registered sigs ch w"
  by (simp_all add: registered_def)

lemma registered_Notify [simp]:
  "registered sigs ch (signal_Notify ch sigs (make_chan ch (Suc 0) w))"
  by (simp add: registered_def Notify_fresh_handlers)

lemma registered_wants: "registered sigs ch w \<Longrightarrow> wants w ch s = subscribed sigs s"
  by (simp add: registered_def wants_def)

lemma buf_apply_event:
  "buf (apply_event e w) c =
     (case e of Raise s \<Rightarrow> (if wants w c s \<and> length (buf w c) < cap w c then buf w c @ [s] else buf w c)
      | _ \<Rightarrow> buf w c)"
  by (cases e) simp_all

lemma registered_cap: "registered sigs ch w \<Longrightarrow> cap w ch = 1"
  by (simp add: registered_def)

lemma Wait_inv_step: "Wait_inv sigs ch cfg \<Longrightarrow> Wait_inv sigs ch (Wait_step ctx sigs ch t cfg)"
proof (cases cfg)
  case (Pair pc w)
  assume inv: "Wait_inv sigs ch cfg"
  show ?thesis
  proof (cases t)
    case (Env e)
    with Pair inv show ?thesis
      by (cases pc) (auto simp: buf_apply_event registered_wants registered_cap split: event.splits)
  next
    case (Goroutine b)
    with inv show ?thesis by simp
  next
    case (Main b)
    show ?thesis
    proof (cases pc)
      case W_start
      with Pair Main show ?thesis by simp
    next
      case W_select
      with Pair Main inv show ?thesis
        by (cases "buf w ch") (auto simp: select2_def split: choice.splits)
    next
      case (W_deferred r)
      with Pair Main inv show ?thesis by simp
    next
      case (W_returned r)
      with Pair Main inv show ?thesis by simp
    qed
  qed
qed

lemma Wait_inv_exec: "Wait_inv sigs ch (Wait_exec ctx sigs ch sched w)"
  unfolding Wait_exec_def by (rule foldl_invariant) (simp_all add: Wait_inv_step)

lemma env_events_snoc [simp]:
  "env_events (ts @ [t]) = env_events ts @ (case t of Env e \<Rightarrow> [e] | _ \<Rightarrow> [])"
  by (induction ts rule: env_events.induct) (auto split: tick.splits)

lemma env_events_map_Env [simp]: "env_events (map Env es) = es"
  by (induction es) simp_all

lemma env_events_append [simp]: "env_events (ts @ ts') = env_events ts @ env_events ts'"
  by (induction ts rule: env_events.induct) auto

lemma raised_append [simp]: "raised (es @ es') = raised es @ raised es'"
  by (induction es rule: raised.induct) auto

lemma raised_single: "raised [e] = (case e of Raise s \<Rightarrow> [s] | _ \<Rightarrow> [])"
  by (cases e) simp_all

subsection \<open>Wait: nil only when the context is done\<close>

lemma Wait_nil_inv_step:
  "Wait_nil_inv ctx cfg \<Longrightarrow> Wait_nil_inv ctx (Wait_step ctx sigs ch t cfg)"
proof (cases cfg)
  case (Pair pc w)
  assume inv: "Wait_nil_inv ctx cfg"
  show ?thesis
  proof (cases t)
    case (Env e)
    with Pair inv show ?thesis
      by (cases "(ctx, pc, w)" rule: Wait_nil_inv.cases) (auto simp: done_ready_apply_event)
  next
    case (Goroutine b)
    with inv show ?thesis by simp
  next
    case (Main b)
    show ?thesis
    proof (cases pc)
      case (W_deferred r)
      with Pair Main inv show ?thesis by (cases r) simp_all
    next
      case (W_returned r)
      with Pair Main inv show ?thesis by (cases r) simp_all
    qed (use Pair Main inv in \<open>auto simp: select2_def split: if_splits\<close>)
  qed
qed

lemma Wait_nil_inv_exec: "Wait_nil_inv ctx (Wait_exec ctx sigs ch sched w)"
  unfolding Wait_exec_def by (rule foldl_invariant) (simp_all add: Wait_nil_inv_step)

lemma Wait_nil_done:
  assumes "Wait ctx sigs ch sched w = Some None"
  shows "done_ready (snd (Wait_exec ctx sigs ch sched w)) ctx"
proof -
  obtain pc w' where cfg: "Wait_exec ctx sigs ch sched w = (pc, w')"
    by (cases "Wait_exec ctx sigs ch sched w")
  from assms cfg have "pc = W_returned None"
    by (auto simp: Wait_def split: wpc.splits)
  with Wait_nil_inv_exec [of ctx sigs ch sched w] cfg show ?thesis by simp
qed

subsection \<open>Wait: a signal only when it was raised and is subscribed\<close>

lemma Wait_sig_inv_mono: "Wait_sig_inv ch R cfg \<Longrightarrow> R \<subseteq> R' \<Longrightarrow> Wait_sig_inv ch R' cfg"
  by (cases "(ch, R, cfg)" rule: Wait_sig_inv.cases) auto

lemma Wait_sig_inv_step:
  assumes "Wait_sig_inv ch R cfg"
  shows "Wait_sig_inv ch (R \<union> set (raised (env_events [t]))) (Wait_step ctx sigs ch t cfg)"
proof (cases cfg)
  case (Pair pc w)
  show ?thesis
  proof (cases t)
    case (Env e)
    with Pair assms show ?thesis
      by (cases pc; cases e) auto
  next
    case (Goroutine b)
    with assms show ?thesis by simp
  next
    case (Main b)
    show ?thesis
    proof (cases pc)
      case W_select
      with Pair Main assms show ?thesis
        by (cases "buf w ch") (auto simp: select2_def split: choice.splits if_splits)
    qed (use Pair Main assms in auto)
  qed
qed

lemma Wait_sig_inv_exec:
  "Wait_sig_inv ch (set (raised (env_events sched))) (Wait_exec ctx sigs ch sched w)"
proof (induction sched rule: rev_induct)
  case Nil
  show ?case by simp
next
  case (snoc t sched)
  from Wait_sig_inv_step [OF snoc, of t ctx sigs]
  show ?case by (simp add: Un_commute)
qed

lemma Wait_signal_raised:
  assumes "Wait ctx sigs ch sched w = Some (Some s)"
  shows "subscribed sigs s \<and> s \<in> set (raised (env_events sched))"
proof -
  obtain pc w' where cfg: "Wait_exec ctx sigs ch sched w = (pc, w')"
    by (cases "Wait_exec ctx sigs ch sched w")
  from assms cfg have pc: "pc = W_returned (Some s)"
    by (auto simp: Wait_def split: wpc.splits)
  from Wait_inv_exec [of sigs ch ctx sched w] cfg pc have "subscribed sigs s" by simp
  moreover from Wait_sig_inv_exec [of ch sched ctx sigs w] cfg pc
  have "s \<in> set (raised (env_events sched))" by simp
  ultimately show ?thesis by simp
qed

subsection \<open>Wait: the select\<close>

lemma Wait_select_step:
  "Wait_step ctx sigs ch (Main b) (W_select, w) =
     (if buf w ch \<noteq> [] \<and> (b \<or> \<not> done_ready w ctx)
        then (W_deferred (Some (hd (buf w ch))), recv ch w)
      else if done_ready w ctx then (W_deferred None, w)
      else (W_select, w))"
  by (simp add: select2_def)

subsection \<open>Wait: the subscription\<close>

lemma Wait_subscription:
  assumes "Wait_exec ctx sigs ch sched w = (pc, w')" and "pc = W_select \<or> pc = W_deferred r"
  shows "wants w' ch s = subscribed sigs s"
  using Wait_inv_exec [of sigs ch ctx sched w] assms by (auto simp: registered_wants)

lemma Wait_released:
  assumes "Wait ctx sigs ch sched w = Some r"
  shows "handlers (snd (Wait_exec ctx sigs ch sched w)) ch = None"
proof -
  obtain pc w' where cfg: "Wait_exec ctx sigs ch sched w = (pc, w')"
    by (cases "Wait_exec ctx sigs ch sched w")
  from assms cfg have "pc = W_returned r" by (auto simp: Wait_def split: wpc.splits)
  with Wait_inv_exec [of sigs ch ctx sched w] cfg show ?thesis by simp
qed

subsection \<open>Wait: the buffer between the registration and the select\<close>

lemma buf_after_events:
  assumes "registered sigs ch w"
  shows "registered sigs ch (foldl (\<lambda>w e. apply_event e w) w es)
     \<and> buf (foldl (\<lambda>w e. apply_event e w) w es) ch
        = take 1 (buf w ch @ filter (subscribed sigs) (raised es))
          @ drop 1 (buf w ch)"
  using assms
proof (induction es arbitrary: w)
  case Nil
  then show ?case by (cases "buf w ch") simp_all
next
  case (Cons e es)
  have reg: "registered sigs ch (apply_event e w)" using Cons.prems by simp
  show ?case
  proof (cases e)
    case (Raise s)
    with Cons.IH [OF reg] Cons.prems show ?thesis
      by (cases "buf w ch") (auto simp: registered_wants registered_cap)
  next
    case (CancelCause c cause)
    with Cons.IH [OF reg] show ?thesis by simp
  next
    case (DeadlinePassed c)
    with Cons.IH [OF reg] show ?thesis by simp
  qed
qed

lemma Wait_step_Env_fold:
  "foldl (\<lambda>cfg t. Wait_step ctx sigs ch t cfg) (pc, w) (map Env es)
     = (pc, foldl (\<lambda>w e. apply_event e w) w es)"
  by (induction es arbitrary: w) simp_all

lemma Wait_buffered:
  "Wait_exec ctx sigs ch (Main b # map Env es) w = (W_select, w')
   \<Longrightarrow> cap w' ch = 1 \<and> buf w' ch = take 1 (filter (subscribed sigs) (raised es))"
proof -
  assume a: "Wait_exec ctx sigs ch (Main b # map Env es) w = (W_select, w')"
  let ?w1 = "signal_Notify ch sigs (make_chan ch 1 w)"
  have w': "w' = foldl (\<lambda>w e. apply_event e w) ?w1 es"
    using a by (simp add: Wait_exec_def Wait_step_Env_fold)
  have reg: "registered sigs ch ?w1" by simp
  from buf_after_events [OF reg, of es] show ?thesis
    unfolding w' by (auto simp: registered_def)
qed

subsection \<open>Events from outside the call\<close>

lemma own_cancel_other: "node_of c \<noteq> Some i \<Longrightarrow> own (cancel c err cause w) i = own w i"
  by (auto simp: cancel_def split: option.splits)

lemma own_outside_event [simp]: "own (outside_event cid e w) cid = own w cid"
  by (cases e) (auto simp: outside_event_def own_cancel_other)

lemma outside_event_fields [simp]:
  "handlers (outside_event cid e w) = handlers w"
  "cap (outside_event cid e w) = cap w"
  by (simp_all add: outside_event_def)

lemma buf_outside_event:
  "buf (outside_event cid e w) c =
     (case e of Raise s \<Rightarrow> (if wants w c s \<and> length (buf w c) < cap w c then buf w c @ [s] else buf w c)
      | _ \<Rightarrow> buf w c)"
  by (cases e) (simp_all add: outside_event_def)

lemma own_outside_event_mono: "own w i \<noteq> None \<Longrightarrow> own (outside_event cid e w) i \<noteq> None"
  using own_apply_event_mono [of w i _ e] by (auto simp: outside_event_def)

lemma done_ready_outside_event: "done_ready w c \<Longrightarrow> done_ready (outside_event cid e w) c"
  by (simp add: outside_event_def done_ready_apply_event)

lemma outside_events_Nil [simp]: "outside_events cid [] w = w"
  by (simp add: outside_events_def)

lemma outside_events_Cons [simp]:
  "outside_events cid (e # es) w = outside_events cid es (outside_event cid e w)"
  by (simp add: outside_events_def)

lemma own_outside_events [simp]: "own (outside_events cid es w) cid = own w cid"
  by (induction es arbitrary: w) simp_all

lemma outside_events_fields [simp]:
  "handlers (outside_events cid es w) = handlers w"
  "cap (outside_events cid es w) = cap w"
  by (induction es arbitrary: w; simp)+

lemma done_ready_outside_events: "done_ready w c \<Longrightarrow> done_ready (outside_events cid es w) c"
  by (induction es arbitrary: w) (simp_all add: done_ready_outside_event)

lemma buf_ok_outside_event:
  assumes "buf_ok sigs ch w" and "registered_or_released sigs ch w"
  shows "buf_ok sigs ch (outside_event cid e w)"
proof (cases e)
  case (Raise s)
  from assms(2) have "registered sigs ch w \<or> handlers w ch = None"
    by (simp add: registered_or_released_def)
  then show ?thesis
  proof
    assume "registered sigs ch w"
    with assms(1) Raise show ?thesis
      by (auto simp: buf_ok_def buf_outside_event registered_wants registered_cap)
  next
    assume "handlers w ch = None"
    with assms(1) Raise show ?thesis
      by (auto simp: buf_ok_def buf_outside_event wants_def)
  qed
qed (use assms in \<open>auto simp: buf_ok_def buf_outside_event\<close>)

lemma registered_outside_event [simp]:
  "registered sigs ch (outside_event cid e w) = registered sigs ch w"
  by (simp add: registered_def)

lemma registered_outside_events [simp]:
  "registered sigs ch (outside_events cid es w) = registered sigs ch w"
  by (simp add: registered_def)

lemma registered_or_released_outside_event [simp]:
  "registered_or_released sigs ch (outside_event cid e w) = registered_or_released sigs ch w"
  by (simp add: registered_or_released_def)

lemma buf_ok_outside_events:
  "buf_ok sigs ch w \<Longrightarrow> registered_or_released sigs ch w \<Longrightarrow> buf_ok sigs ch (outside_events cid es w)"
  by (induction es arbitrary: w) (simp_all add: buf_ok_outside_event)

lemma buf_ok_frame [simp]:
  "buf_ok sigs ch (cancel c err cause w) = buf_ok sigs ch w"
  "buf_ok sigs ch (signal_Stop c' w) = buf_ok sigs ch w"
  "buf_ok sigs ch (WithCancelCause i w) = buf_ok sigs ch w"
  by (simp_all add: buf_ok_def)

lemma registered_frame2 [simp]:
  "registered sigs ch (cancel c err cause w) = registered sigs ch w"
  "registered sigs ch (WithCancelCause i w) = registered sigs ch w"
  by (simp_all add: registered_def)

lemma buf_ok_recv: "buf_ok sigs ch w \<Longrightarrow> buf_ok sigs ch (recv ch w)"
  by (cases "buf w ch") (auto simp: buf_ok_def)

lemma buf_ok_fresh [simp]: "buf_ok sigs ch (signal_Notify ch sigs (make_chan ch n w))"
  by (simp add: buf_ok_def)

lemma buf_ok_hd: "buf_ok sigs ch w \<Longrightarrow> buf w ch \<noteq> [] \<Longrightarrow> subscribed sigs (hd (buf w ch))"
  by (cases "buf w ch") (auto simp: buf_ok_def)

lemma NC_inv_subscription:
  "NC_inv v sigs ch (pc, l, w) \<Longrightarrow> pc \<noteq> N_start \<Longrightarrow> pc \<noteq> N_derived
   \<Longrightarrow> registered_or_released sigs ch w \<and> buf_ok sigs ch w \<and> lsub sigs l"
  by (cases pc) (auto simp: registered_or_released_def lsub_def split: if_splits)

lemma NC_inv_Env:
  assumes "NC_inv v sigs ch (pc, l, w)"
  shows "NC_inv v sigs ch (pc, l, outside_event cid e w)"
proof (cases "pc = N_start \<or> pc = N_derived")
  case True
  with assms show ?thesis by auto
next
  case False
  with NC_inv_subscription [OF assms] have "buf_ok sigs ch (outside_event cid e w)"
    by (simp add: buf_ok_outside_event)
  with assms False show ?thesis by (cases pc) auto
qed

lemma NC_inv_Goroutine:
  assumes "NC_inv v sigs ch (pc, l, w)"
  shows "NC_inv v sigs ch (NotifyContext_step v parent run sigs cid ch (Goroutine b) (pc, l, w))"
proof (cases l)
  case NotStarted
  with assms show ?thesis by simp
next
  case Selecting
  then have nst: "pc \<noteq> N_start" "pc \<noteq> N_derived" "pc \<noteq> N_notified" using assms by auto
  from NC_inv_subscription [OF assms nst(1,2)] have ok: "buf_ok sigs ch w" by simp
  show ?thesis
  proof (cases "select2 b ch (cancelCtx cid parent) w")
    case FromChannel
    then have ne: "buf w ch \<noteq> []" by (auto simp: select2_def split: if_splits)
    from buf_ok_hd [OF ok ne] buf_ok_recv [OF ok] assms nst Selecting FromChannel
    show ?thesis by (cases pc) (auto simp: lsub_def registered_def)
  next
    case FromDone
    with assms nst Selecting show ?thesis by (cases pc) (auto simp: lsub_def)
  next
    case Blocked
    with assms Selecting show ?thesis by simp
  qed
next
  case (Received s)
  with assms show ?thesis by (cases pc) (auto simp: lsub_def)
next
  case Exited
  with assms show ?thesis by simp
qed

lemma NC_inv_Main:
  assumes "NC_inv v sigs ch (pc, l, w)"
  shows "NC_inv v sigs ch (NotifyContext_step v parent run sigs cid ch (Main b) (pc, l, w))"
proof (cases pc)
  case (N_running s)
  obtain es r where rs: "run_step run s w = (es, r)" by (cases "run_step run s w")
  from assms N_running have "buf_ok sigs ch (outside_events cid es w)"
    by (auto simp: buf_ok_outside_events registered_or_released_def)
  with assms N_running rs show ?thesis by (cases r) auto
next
  case (N_deferred1 out)
  with assms show ?thesis by (cases v) (auto simp: deferred1_def registered_def)
next
  case (N_deferred2 out)
  with assms show ?thesis by (cases v) (auto simp: deferred2_def)
qed (use assms in \<open>auto simp: lsub_def\<close>)

lemma NC_inv_step:
  "NC_inv v sigs ch cfg \<Longrightarrow> NC_inv v sigs ch (NotifyContext_step v parent run sigs cid ch t cfg)"
proof -
  assume a: "NC_inv v sigs ch cfg"
  obtain pc l w where cfg: "cfg = (pc, l, w)" by (cases cfg)
  show ?thesis
  proof (cases t)
    case (Env e)
    with a cfg show ?thesis by (simp add: NC_inv_Env)
  next
    case (Main b)
    with a cfg show ?thesis by (simp only: NC_inv_Main)
  next
    case (Goroutine b)
    with a cfg show ?thesis by (simp only: NC_inv_Goroutine)
  qed
qed

lemma NC_inv_exec: "NC_inv v sigs ch (NotifyContext_exec v parent run sigs cid ch sched w)"
  unfolding NotifyContext_exec_def by (rule foldl_invariant) (simp_all add: NC_inv_step)

lemma NC_exec_Nil [simp]:
  "NotifyContext_exec v parent run sigs cid ch [] w = (N_start, NotStarted, w)"
  by (simp add: NotifyContext_exec_def)

lemma NC_exec_snoc [simp]:
  "NotifyContext_exec v parent run sigs cid ch (sched @ [t]) w =
     NotifyContext_step v parent run sigs cid ch t (NotifyContext_exec v parent run sigs cid ch sched w)"
  by (simp add: NotifyContext_exec_def)

lemma NC_exec_append:
  "NotifyContext_exec v parent run sigs cid ch (s1 @ s2) w =
     foldl (\<lambda>cfg t. NotifyContext_step v parent run sigs cid ch t cfg)
       (NotifyContext_exec v parent run sigs cid ch s1 w) s2"
  by (simp add: NotifyContext_exec_def)

subsection \<open>Who cancels the derived context\<close>





lemma FromContext_child:
  "FromContext w (signalCtx (cancelCtx cid parent) sigs) =
     (case own w cid of
        None \<Rightarrow> FromContext w parent
      | Some x \<Rightarrow> (case errors_As_chain (snd x) of Some s \<Rightarrow> (signal s, True) | None \<Rightarrow> (None, False)))"
  by (simp add: FromContext_def Cause_def errors_As_def Canceled_Signal_def split: option.splits)

subsection \<open>A parent canceled before the call\<close>

lemma ctx_state_fresh:
  "i \<notin> nodes_of c \<Longrightarrow> own w' = (own w)(i := x) \<Longrightarrow> ctx_state w' c = ctx_state w c"
  by (induction c) (auto split: option.splits)

lemma ctx_state_WithCancelCause:
  "i \<notin> nodes_of c \<Longrightarrow> ctx_state (WithCancelCause i w) c = ctx_state w c"
  by (rule ctx_state_fresh [where x = None]) simp_all

lemma cancel_canceled [simp]: "ctx_state w c \<noteq> None \<Longrightarrow> cancel c err cause w = w"
  by (simp add: cancel_def split: option.splits)

lemma NC_parent_inv_step:
  assumes fresh: "cid \<notin> nodes_of parent" and inv: "NC_parent_inv parent cid cfg"
  shows "NC_parent_inv parent cid (NotifyContext_step v parent run sigs cid ch t cfg)"
proof -
  obtain pc l w where cfg: "cfg = (pc, l, w)" by (cases cfg)
  from inv cfg have p: "ctx_state w parent \<noteq> None" and l: "l = NotStarted"
    and o: "pc \<noteq> N_start \<Longrightarrow> own w cid = None" by simp_all
  from p have dr: "done_ready w parent" by (simp add: done_ready_def)
  show ?thesis
  proof (cases t)
    case (Env e)
    from done_ready_outside_event [OF dr, of cid e] Env cfg l o show ?thesis
      by (simp add: done_ready_def)
  next
    case (Goroutine b)
    with cfg inv show ?thesis by simp
  next
    case (Main b)
    show ?thesis
    proof (cases pc)
      case N_start
      with Main cfg p l fresh show ?thesis by (simp add: ctx_state_WithCancelCause)
    next
      case N_derived
      with Main cfg p l o show ?thesis by simp
    next
      case N_notified
      with Main cfg p l o show ?thesis by (simp add: ctx_Err_def)
    next
      case (N_running s)
      obtain es r where rs: "run_step run s w = (es, r)" by (cases "run_step run s w")
      from done_ready_outside_events [OF dr, of cid es] rs Main cfg l o N_running show ?thesis
        by (cases r) (simp_all add: done_ready_def)
    next
      case (N_deferred1 out)
      with Main cfg p l o show ?thesis by (cases v) (simp_all add: deferred1_def)
    next
      case (N_deferred2 out)
      with Main cfg p l o show ?thesis by (cases v) (simp_all add: deferred2_def)
    next
      case (N_exited out)
      with Main cfg p l o show ?thesis by simp
    qed
  qed
qed

lemma NC_parent_inv_exec:
  assumes "cid \<notin> nodes_of parent" and "ctx_state w0 parent \<noteq> None"
  shows "NC_parent_inv parent cid (NotifyContext_exec v parent run sigs cid ch sched w0)"
  unfolding NotifyContext_exec_def
  by (rule foldl_invariant) (use assms in \<open>simp_all add: NC_parent_inv_step\<close>)

subsection \<open>When the goroutine is started\<close>

lemma NC_listener_start:
  assumes "NotifyContext_exec v parent run sigs cid ch sched w0 = (pc, l, w)"
    and "l \<noteq> NotStarted"
  shows "\<exists>pre b post w1. sched = pre @ Main b # post
      \<and> NotifyContext_exec v parent run sigs cid ch pre w0 = (N_notified, NotStarted, w1)
      \<and> ctx_Err w1 (cancelCtx cid parent) = None"
  using assms
proof (induction sched arbitrary: pc l w rule: rev_induct)
  case Nil
  then show ?case by simp
next
  case (snoc t sched)
  obtain pc0 l0 w0' where c0: "NotifyContext_exec v parent run sigs cid ch sched w0 = (pc0, l0, w0')"
    by (cases "NotifyContext_exec v parent run sigs cid ch sched w0") auto
  show ?case
  proof (cases "l0 = NotStarted")
    case False
    from snoc.IH [OF c0 False] obtain pre b post w1 where
      "sched = pre @ Main b # post"
      "NotifyContext_exec v parent run sigs cid ch pre w0 = (N_notified, NotStarted, w1)"
      "ctx_Err w1 (cancelCtx cid parent) = None" by blast
    then have "sched @ [t] = pre @ Main b # (post @ [t])" by simp
    with \<open>NotifyContext_exec v parent run sigs cid ch pre w0 = (N_notified, NotStarted, w1)\<close>
      \<open>ctx_Err w1 (cancelCtx cid parent) = None\<close>
    show ?thesis by blast
  next
    case True
    from snoc.prems c0 True have step:
      "NotifyContext_step v parent run sigs cid ch t (pc0, NotStarted, w0') = (pc, l, w)" by simp
    show ?thesis
    proof (cases t)
      case (Env e)
      with step snoc.prems(2) show ?thesis by simp
    next
      case (Goroutine b)
      with step snoc.prems(2) show ?thesis by simp
    next
      case (Main b)
      with step snoc.prems(2) have "pc0 = N_notified \<and> ctx_Err w0' (cancelCtx cid parent) = None"
        by (cases pc0) (auto split: if_splits prod.splits sum.splits)
      with c0 True Main show ?thesis by blast
    qed
  qed
qed

subsection \<open>The outcome is the outcome of run\<close>

lemma ended_step:
  assumes "ended pc out"
  shows "ended (fst (NotifyContext_step v parent run sigs cid ch t (pc, l, w))) out"
proof (cases t)
  case (Goroutine b)
  then show ?thesis using assms by (cases l; cases "select2 b ch (cancelCtx cid parent) w") auto
qed (use assms in \<open>auto simp: ended_def\<close>)

lemma NC_outcome_origin:
  assumes "NotifyContext_exec v parent run sigs cid ch sched w0 = (pc, l, w)"
    and "ended pc out"
  shows "\<exists>pre b post s l1 w1. sched = pre @ Main b # post
      \<and> NotifyContext_exec v parent run sigs cid ch pre w0 = (N_running s, l1, w1)
      \<and> snd (run_step run s w1) = Inr out"
  using assms
proof (induction sched arbitrary: pc l w rule: rev_induct)
  case Nil
  then show ?case by (simp add: ended_def)
next
  case (snoc t sched)
  obtain pc0 l0 w0' where c0: "NotifyContext_exec v parent run sigs cid ch sched w0 = (pc0, l0, w0')"
    by (cases "NotifyContext_exec v parent run sigs cid ch sched w0") auto
  show ?case
  proof (cases "ended pc0 out")
    case True
    from snoc.IH [OF c0 True] obtain pre b post s l1 w1 where
      "sched = pre @ Main b # post"
      "NotifyContext_exec v parent run sigs cid ch pre w0 = (N_running s, l1, w1)"
      "snd (run_step run s w1) = Inr out" by blast
    then have "sched @ [t] = pre @ Main b # (post @ [t])" by simp
    with \<open>NotifyContext_exec v parent run sigs cid ch pre w0 = (N_running s, l1, w1)\<close>
      \<open>snd (run_step run s w1) = Inr out\<close>
    show ?thesis by blast
  next
    case False
    from snoc.prems c0 have step:
      "NotifyContext_step v parent run sigs cid ch t (pc0, l0, w0') = (pc, l, w)" by simp
    show ?thesis
    proof (cases t)
      case (Env e)
      with step snoc.prems(2) False show ?thesis by simp
    next
      case (Goroutine b)
      with step snoc.prems(2) False show ?thesis
        by (cases l0; cases "select2 b ch (cancelCtx cid parent) w0'") auto
    next
      case (Main b)
      with step snoc.prems(2) False
      have "\<exists>s. pc0 = N_running s \<and> snd (run_step run s w0') = Inr out"
        by (cases pc0) (auto simp: ended_def split: if_splits prod.splits sum.splits)
      with c0 Main show ?thesis by blast
    qed
  qed
qed

lemma NC_finishes:
  assumes "fst (NotifyContext_exec v parent run sigs cid ch sched w0) = N_deferred1 out"
  shows "outcome_of (NotifyContext_exec v parent run sigs cid ch (sched @ [Main b1, Main b2]) w0) = Some out"
proof -
  obtain l w where "NotifyContext_exec v parent run sigs cid ch sched w0 = (N_deferred1 out, l, w)"
    using assms by (cases "NotifyContext_exec v parent run sigs cid ch sched w0") auto
  then show ?thesis by (simp add: NC_exec_append outcome_of_def)
qed

subsection \<open>The buffer of NotifyContext's channel\<close>

lemma buf_after_outside_events:
  assumes "registered sigs ch w"
  shows "buf (outside_events cid es w) ch
        = take 1 (buf w ch @ filter (subscribed sigs) (raised es)) @ drop 1 (buf w ch)"
  using assms
proof (induction es arbitrary: w)
  case Nil
  then show ?case by (cases "buf w ch") simp_all
next
  case (Cons e es)
  have reg: "registered sigs ch (outside_event cid e w)" using Cons.prems by simp
  show ?case
  proof (cases e)
    case (Raise s)
    with Cons.IH [OF reg] Cons.prems show ?thesis
      by (cases "buf w ch") (auto simp: buf_outside_event registered_wants registered_cap)
  next
    case (CancelCause c cause)
    with Cons.IH [OF reg] show ?thesis by (simp add: buf_outside_event)
  next
    case (DeadlinePassed c)
    with Cons.IH [OF reg] show ?thesis by (simp add: buf_outside_event)
  qed
qed

lemma NC_step_Env_fold:
  "foldl (\<lambda>cfg t. NotifyContext_step v parent run sigs cid ch t cfg) (pc, l, w) (map Env es)
     = (pc, l, outside_events cid es w)"
  by (induction es arbitrary: w) simp_all

lemma outside_events_append [simp]:
  "outside_events cid (es @ es') w = outside_events cid es' (outside_events cid es w)"
  by (simp add: outside_events_def)

lemma NC_buffered:
  "\<exists>l w'. NotifyContext_exec v parent run sigs cid ch
        (Main b1 # Main b2 # map Env es1 @ Main b3 # map Env es2) w
      = (N_running (run_start run (signalCtx (cancelCtx cid parent) sigs)), l, w')
     \<and> cap w' ch = 1 \<and> buf w' ch = take 1 (filter (subscribed sigs) (raised (es1 @ es2)))"
proof -
  let ?w1 = "signal_Notify ch sigs (make_chan ch 1 (WithCancelCause cid w))"
  let ?w2 = "outside_events cid (es1 @ es2) ?w1"
  have reg: "registered sigs ch ?w1" by simp
  have ex: "NotifyContext_exec v parent run sigs cid ch
        (Main b1 # Main b2 # map Env es1 @ Main b3 # map Env es2) w
      = (N_running (run_start run (signalCtx (cancelCtx cid parent) sigs)),
         (if ctx_Err (outside_events cid es1 ?w1) (cancelCtx cid parent) = None
          then Selecting else NotStarted), ?w2)"
    by (simp add: NotifyContext_exec_def NC_step_Env_fold)
  have "cap ?w2 ch = 1" by simp
  moreover from buf_after_outside_events [OF reg, of cid "es1 @ es2"]
  have "buf ?w2 ch = take 1 (filter (subscribed sigs) (raised (es1 @ es2)))" by simp
  ultimately show ?thesis using ex by blast
qed

lemma NC_listener_receives:
  "buf w ch \<noteq> [] \<Longrightarrow> b \<or> \<not> done_ready w (cancelCtx cid parent) \<Longrightarrow>
   NotifyContext_step v parent run sigs cid ch (Goroutine b) (pc, Selecting, w)
     = (pc, Received (hd (buf w ch)), recv ch w)"
  by (auto simp: select2_def)

lemma NC_listener_done:
  "done_ready w (cancelCtx cid parent) \<Longrightarrow> buf w ch = [] \<or> \<not> b \<Longrightarrow>
   NotifyContext_step v parent run sigs cid ch (Goroutine b) (pc, Selecting, w) = (pc, Exited, w)"
  by (auto simp: select2_def)

lemma NC_released:
  assumes "outcome_of (NotifyContext_exec v parent run sigs cid ch sched w0) = Some out"
  shows "handlers (snd (snd (NotifyContext_exec v parent run sigs cid ch sched w0))) ch = None"
proof -
  obtain pc l w where cfg: "NotifyContext_exec v parent run sigs cid ch sched w0 = (pc, l, w)"
    by (cases "NotifyContext_exec v parent run sigs cid ch sched w0") auto
  with assms have "pc = N_exited out" by (auto simp: outcome_of_def split: npc.splits)
  with NC_inv_exec [of v sigs ch parent run cid sched w0] cfg show ?thesis by simp
qed

lemma NC_subscription:
  assumes "NotifyContext_exec v parent run sigs cid ch sched w0 = (pc, l, w)"
    and "pc = N_notified \<or> pc = N_running st \<or> pc = N_deferred1 out"
  shows "registered sigs ch w"
  using NC_inv_exec [of v sigs ch parent run cid sched w0] assms by auto

lemma registered_Raise:
  "registered sigs ch w \<Longrightarrow>
   buf (apply_event (Raise s) w) ch
     = (if subscribed sigs s \<and> buf w ch = [] then [s] else buf w ch)"
  by (auto simp: registered_wants registered_cap)

subsection \<open>Wait on a context that is already done\<close>

lemma done_ready_events: "done_ready w c \<Longrightarrow> done_ready (foldl (\<lambda>w e. apply_event e w) w es) c"
  by (induction es arbitrary: w) (simp_all add: done_ready_apply_event)

lemma Wait_shape:
  "Wait ctx sigs ch (Main b1 # map Env es @ [Main b2, Main b3]) w =
     (let w1 = foldl (\<lambda>w e. apply_event e w) (signal_Notify ch sigs (make_chan ch 1 w)) es;
          q = take 1 (filter (subscribed sigs) (raised es))
      in if q \<noteq> [] \<and> (b2 \<or> \<not> done_ready w1 ctx) then Some (Some (hd q))
         else if done_ready w1 ctx then Some None
         else None)"
proof -
  let ?w0 = "signal_Notify ch sigs (make_chan ch 1 w)"
  let ?w1 = "foldl (\<lambda>w e. apply_event e w) ?w0 es"
  have reg: "registered sigs ch ?w0" by simp
  from buf_after_events [OF reg, of es]
  have b: "buf ?w1 ch = take 1 (filter (subscribed sigs) (raised es))" by simp
  have e: "Wait_exec ctx sigs ch (Main b1 # map Env es) w = (W_select, ?w1)"
    by (simp add: Wait_exec_def Wait_step_Env_fold)
  have "Wait_exec ctx sigs ch (Main b1 # map Env es @ [Main b2, Main b3]) w
      = Wait_step ctx sigs ch (Main b3) (Wait_step ctx sigs ch (Main b2) (W_select, ?w1))"
    using Wait_exec_append [of ctx sigs ch "Main b1 # map Env es" "[Main b2, Main b3]" w] e
    by simp
  then show ?thesis
    unfolding Wait_def Let_def b [symmetric]
    by (simp add: select2_def)
qed

lemma Wait_already_done:
  assumes "done_ready w ctx" and "filter (subscribed sigs) (raised es) = []"
  shows "Wait ctx sigs ch (Main b1 # map Env es @ [Main b2, Main b3]) w = Some None"
proof -
  have "done_ready (foldl (\<lambda>w e. apply_event e w) (signal_Notify ch sigs (make_chan ch 1 w)) es) ctx"
    by (rule done_ready_events) (simp add: assms(1))
  with assms(2) show ?thesis by (simp add: Wait_shape Let_def)
qed

subsection \<open>The example, evaluated\<close>

lemma example_cause:
  "Cause example_world example_ctx = Some (SignalCanceled (Canceled (Some SIGINT)))"
  unfolding example_world_def example_ctx_def example_sched_def by code_simp

lemma example_err: "ctx_Err example_world example_ctx = Some context_Canceled"
  unfolding example_world_def example_ctx_def example_sched_def by code_simp

lemma example_pc:
  "fst (NotifyContext_exec WithCause Background runN [SIGINT, SIGTERM] 0 0 example_sched idle)
     = N_running (AwaitDone, example_ctx)"
  unfolding example_ctx_def example_sched_def by code_simp

lemma example_listener:
  "fst (snd (NotifyContext_exec WithCause Background runN [SIGINT, SIGTERM] 0 0 example_sched idle))
     = Exited"
  unfolding example_sched_def by code_simp

lemma example_exec:
  "NotifyContext_exec WithCause Background runN [SIGINT, SIGTERM] 0 0 example_sched idle
     = (N_running (AwaitDone, example_ctx), Exited, example_world)"
  using example_pc example_listener
  by (simp add: example_world_def prod_eq_iff)

lemma example_returns:
  "NotifyContext Background runN [SIGINT, SIGTERM] 0 0
     (example_sched @ [Main True, Main True, Main True]) idle = Some (Returned None)"
  unfolding example_sched_def by code_simp

lemma example_name:
  "contextName signal_name dn example_ctx
     = ''signals.NotifyContext(context.Background, [interrupt terminated])''"
  by (simp add: example_ctx_def signal_name_def SIGINT_def SIGTERM_def Let_def)

lemma example_subscribed: "subscribed [SIGINT, SIGTERM] SIGINT"
  by (simp add: subscribed_def SIGINT_def numSig_def)

lemma run_fails_deferred:
  "fst (NotifyContext_exec v Background run_fails [SIGINT] 0 0
         [Main True, Main True, Main True, Main True] idle)
     = N_deferred1 (Returned (Some (errorString ''boom'')))"
  by (cases v; code_simp)

subsection \<open>Wait, evaluated on races\<close>

lemma race1:
  "Wait (cancelCtx 0 Background) [SIGINT] 0
     [Main True, Env (Raise SIGINT), Env (CancelCause (cancelCtx 0 Background) None),
      Main False, Main True] idle = Some None"
  by code_simp

lemma race1_not_first:
  "\<not> done_first (cancelCtx 0 Background) [SIGINT] 0
     [Main True, Env (Raise SIGINT), Env (CancelCause (cancelCtx 0 Background) None),
      Main False, Main True] (W_start, idle)"
  by code_simp

lemma race2:
  "Wait (cancelCtx 0 Background) [SIGINT] 0
     [Env (CancelCause (cancelCtx 0 Background) None), Main True, Env (Raise SIGINT),
      Main True, Main True] idle = Some (Some SIGINT)"
  by code_simp

lemma race2_first:
  "done_first (cancelCtx 0 Background) [SIGINT] 0
     [Env (CancelCause (cancelCtx 0 Background) None), Main True, Env (Raise SIGINT),
      Main True, Main True] (W_start, idle)"
  by code_simp

lemma canceled_done:
  "done_ready (apply_event (CancelCause (cancelCtx 0 Background) None) idle) (cancelCtx 0 Background)"
  by code_simp

lemma wait_signal:
  "Wait (cancelCtx 0 Background) [SIGINT] 0
     [Main True, Env (Raise SIGINT), Main True, Main True] idle = Some (Some SIGINT)"
  by code_simp

lemma wait_registered:
  "Wait_exec Background [] 0 [Main True] idle
     = (W_select, signal_Notify 0 [] (make_chan 0 1 idle))"
  by (simp add: Wait_exec_def)

lemma wait_registered2:
  "Wait_exec Background [SIGINT] 0 [Main True] idle
     = (W_select, signal_Notify 0 [SIGINT] (make_chan 0 1 idle))"
  by (simp add: Wait_exec_def)

lemma run_panics_exits:
  "outcome_of (NotifyContext_exec v Background run_panics [SIGINT] 0 0
     [Main True, Main True, Main True, Main True, Main True, Main True] idle) = Some Panicked"
  by (cases v; code_simp)

lemma wait_canceled_before:
  "Wait (cancelCtx 0 Background) [SIGINT] 0 [Main True, Main True, Main True]
     (apply_event (CancelCause (cancelCtx 0 Background) None) idle) = Some None"
  by code_simp

subsection \<open>The nested call and the canceled parent, evaluated\<close>

lemma nested_parent_done: "ctx_state example_world example_ctx \<noteq> None"
  unfolding example_world_def example_ctx_def example_sched_def by code_simp

lemma nested_cause:
  "Cause nested_world nested_ctx = Some (SignalCanceled (Canceled (Some SIGINT)))"
  unfolding nested_world_def nested_ctx_def example_world_def example_ctx_def example_sched_def
  by code_simp

lemma nested_FromContext: "FromContext nested_world nested_ctx = (Some SIGINT, True)"
  by (simp add: FromContext_def nested_cause errors_As_def Canceled_Signal_def)

lemma nested_listener:
  "fst (snd (NotifyContext_exec WithCause example_ctx run_fails [SIGTERM] 1 1
       [Main True, Main True, Main True] example_world)) = NotStarted"
  unfolding example_world_def example_ctx_def example_sched_def by code_simp

lemma nested_pc:
  "fst (NotifyContext_exec WithCause example_ctx run_fails [SIGTERM] 1 1
       [Main True, Main True, Main True] example_world) = N_running ()"
  unfolding example_world_def example_ctx_def example_sched_def by code_simp

lemma nested_exec:
  "NotifyContext_exec WithCause example_ctx run_fails [SIGTERM] 1 1
       [Main True, Main True, Main True] example_world = (N_running (), NotStarted, nested_world)"
  using nested_pc nested_listener by (simp add: nested_world_def prod_eq_iff)

lemma nested_fresh: "1 \<notin> nodes_of example_ctx"
  by (simp add: example_ctx_def)

lemma canceled_parent_state: "ctx_state canceled_world (cancelCtx 0 Background) \<noteq> None"
  unfolding canceled_world_def by code_simp

lemma canceled_parent_FromContext:
  "FromContext (snd (snd (NotifyContext_exec WithCause (cancelCtx 0 Background) runN [SIGINT] 1 1
      [Main True, Main True, Main True, Main True, Goroutine True, Goroutine True] canceled_world)))
     (cancelCtx 0 Background) = (None, False)"
  unfolding canceled_world_def by code_simp

lemma canceled_parent_pc:
  "fst (NotifyContext_exec WithCause (cancelCtx 0 Background) runN [SIGINT] 1 1
      [Main True, Main True, Main True, Main True, Goroutine True, Goroutine True] canceled_world)
     \<noteq> N_start"
  unfolding canceled_world_def by code_simp

lemma example_selecting:
  "NotifyContext_exec WithCause Background runN [SIGINT, SIGTERM] 0 0
     [Main True, Main True] idle
     = (N_notified, NotStarted, signal_Notify 0 [SIGINT, SIGTERM] (make_chan 0 1 (WithCancelCause 0 idle)))"
  by (simp add: NotifyContext_exec_def)

subsection \<open>A signal raised before the select, evaluated\<close>

lemma early_signal: "filter (subscribed [SIGINT]) (raised [Raise SIGINT, Raise SIGINT]) \<noteq> []"
  by (simp add: subscribed_def SIGINT_def numSig_def)

lemma early_signal_hd:
  "hd (filter (subscribed [SIGINT]) (raised [Raise SIGINT, Raise SIGINT])) = SIGINT"
  by (simp add: subscribed_def SIGINT_def numSig_def)

lemma early_buffer:
  "buf (process SIGINT (signal_Notify 0 [SIGINT] (make_chan 0 1 idle))) 0 \<noteq> []"
  by code_simp

lemma early_buffer_hd:
  "hd (buf (process SIGINT (signal_Notify 0 [SIGINT] (make_chan 0 1 idle))) 0) = SIGINT"
  by code_simp

section \<open>The claims\<close>



text \<open>
  C4.  The Canceled value composes with the canonical cancellation error: for
  every signal, Unwrap of the Canceled value that holds it is context.Canceled,
  so errors.Is with the target context.Canceled succeeds on it, and Signal
  returns exactly the signal.
\<close>

theorem Canceled_composes:
  "Canceled_Unwrap (Canceled sig) = context_Canceled
   \<and> Unwrap (SignalCanceled (Canceled sig)) = Some context_Canceled
   \<and> errors_Is (Some (SignalCanceled (Canceled sig))) (Some context_Canceled)
   \<and> Canceled_Signal (Canceled sig) = sig"
  by (simp add: Canceled_Unwrap_def errors_Is_def Canceled_Signal_def)

theorem Canceled_composes_witness:
  "errors_Is (Cause example_world example_ctx) (Some context_Canceled)
   \<and> Canceled_Signal (Canceled (Some SIGINT)) = Some SIGINT"
  using Canceled_composes [of "Some SIGINT"]
  by (simp add: example_cause)

text \<open>
  C2.  For every parent context, every function run and every signal list,
  in both versions of NotifyContext: when the call ends, its outcome is the
  outcome of the step with which run ended in that very execution (the value
  run returned, nil or an error, or its panic), unchanged; and once run has
  ended, the two deferred calls end the call with that outcome.
\<close>

theorem NotifyContext_returns_run_result:
  "(NotifyContext parent run sigs cid ch sched w = Some out
      \<longrightarrow> (\<exists>pre b post s l1 w1. sched = pre @ Main b # post
            \<and> NotifyContext_exec WithCause parent run sigs cid ch pre w = (N_running s, l1, w1)
            \<and> snd (run_step run s w1) = Inr out))
   \<and> (NotifyContext_relayed parent run sigs cid ch sched w = Some out
      \<longrightarrow> (\<exists>pre b post s l1 w1. sched = pre @ Main b # post
            \<and> NotifyContext_exec Relayed parent run sigs cid ch pre w = (N_running s, l1, w1)
            \<and> snd (run_step run s w1) = Inr out))
   \<and> (fst (NotifyContext_exec WithCause parent run sigs cid ch sched w) = N_deferred1 out
      \<longrightarrow> NotifyContext parent run sigs cid ch (sched @ [Main b1, Main b2]) w = Some out)
   \<and> (fst (NotifyContext_exec Relayed parent run sigs cid ch sched w) = N_deferred1 out
      \<longrightarrow> NotifyContext_relayed parent run sigs cid ch (sched @ [Main b1, Main b2]) w = Some out)"
proof -
  have origin: "\<exists>pre b post s l1 w1. sched = pre @ Main b # post
            \<and> NotifyContext_exec v parent run sigs cid ch pre w = (N_running s, l1, w1)
            \<and> snd (run_step run s w1) = Inr out"
    if "outcome_of (NotifyContext_exec v parent run sigs cid ch sched w) = Some out" for v
  proof -
    obtain pc l w' where cfg: "NotifyContext_exec v parent run sigs cid ch sched w = (pc, l, w')"
      by (cases "NotifyContext_exec v parent run sigs cid ch sched w") auto
    with that have "ended pc out"
      by (auto simp: outcome_of_def ended_def split: npc.splits)
    from NC_outcome_origin [OF cfg this] show ?thesis .
  qed
  show ?thesis
    using origin [of WithCause] origin [of Relayed]
      NC_finishes [of WithCause parent run sigs cid ch sched w out b1 b2]
      NC_finishes [of Relayed parent run sigs cid ch sched w out b1 b2]
    unfolding NotifyContext_def NotifyContext_relayed_def by blast
qed

theorem NotifyContext_returns_run_result_witness:
  "snd (run_step run_fails () idle) = Inr (Returned (Some (errorString ''boom'')))
   \<and> NotifyContext Background run_fails [SIGINT] 0 0
        ([Main True, Main True, Main True, Main True] @ [Main True, Main True]) idle
       = Some (Returned (Some (errorString ''boom'')))
   \<and> NotifyContext_relayed Background run_fails [SIGINT] 0 0
        ([Main True, Main True, Main True, Main True] @ [Main True, Main True]) idle
       = Some (Returned (Some (errorString ''boom'')))
   \<and> NotifyContext Background runN [SIGINT, SIGTERM] 0 0
        (example_sched @ [Main True, Main True, Main True]) idle = Some (Returned None)
   \<and> (\<exists>pre b post s l1 w1.
        example_sched @ [Main True, Main True, Main True] = pre @ Main b # post
        \<and> NotifyContext_exec WithCause Background runN [SIGINT, SIGTERM] 0 0 pre idle
            = (N_running s, l1, w1)
        \<and> snd (run_step runN s w1) = Inr (Returned None))"
proof -
  have 0: "snd (run_step run_fails () idle) = Inr (Returned (Some (errorString ''boom'')))"
    by (simp add: run_fails_def)
  from NotifyContext_returns_run_result
    [of Background run_fails "[SIGINT]" 0 0 "[Main True, Main True, Main True, Main True]" idle
      "Returned (Some (errorString ''boom''))" True True]
    run_fails_deferred [of WithCause] run_fails_deferred [of Relayed]
  have 1: "NotifyContext Background run_fails [SIGINT] 0 0
        ([Main True, Main True, Main True, Main True] @ [Main True, Main True]) idle
       = Some (Returned (Some (errorString ''boom'')))"
    and 2: "NotifyContext_relayed Background run_fails [SIGINT] 0 0
        ([Main True, Main True, Main True, Main True] @ [Main True, Main True]) idle
       = Some (Returned (Some (errorString ''boom'')))"
    by blast+
  from NotifyContext_returns_run_result
    [of Background runN "[SIGINT, SIGTERM]" 0 0 "example_sched @ [Main True, Main True, Main True]"
      idle "Returned None"] example_returns
  have 3: "\<exists>pre b post s l1 w1.
        example_sched @ [Main True, Main True, Main True] = pre @ Main b # post
        \<and> NotifyContext_exec WithCause Background runN [SIGINT, SIGTERM] 0 0 pre idle
            = (N_running s, l1, w1)
        \<and> snd (run_step runN s w1) = Inr (Returned None)"
    by blast
  from 0 1 2 3 example_returns show ?thesis by blast
qed

text \<open>
  C9.  FromContext never raises: for every context and every state it yields a
  pair; the absence of a signal cause is the pair of nil and false, and it is
  the answer whenever the context has no cancellation cause at all.
\<close>

theorem FromContext_reports_absence:
  "(Cause w ctx = None \<longrightarrow> FromContext w ctx = (None, False))
   \<and> (snd (FromContext w ctx) \<or> FromContext w ctx = (None, False))
   \<and> snd (FromContext w ctx) = (\<exists>e s. Cause w ctx = Some e \<and> holds_Canceled e s)"
proof (intro conjI impI)
  show "FromContext w ctx = (None, False)" if "Cause w ctx = None"
    using that by (rule FromContext_no_cause)
  show "snd (FromContext w ctx) \<or> FromContext w ctx = (None, False)"
    using FromContext_False [of w ctx] by auto
  show "snd (FromContext w ctx) = (\<exists>e s. Cause w ctx = Some e \<and> holds_Canceled e s)"
    by (cases "Cause w ctx")
       (auto simp: FromContext_def errors_As_def errors_As_chain_holds [symmetric]
             split: option.splits)
qed

theorem FromContext_reports_absence_witness:
  "Cause idle Background = None \<and> FromContext idle Background = (None, False)
   \<and> Cause idle (cancelCtx 0 Background) = None
   \<and> FromContext idle (cancelCtx 0 Background) = (None, False)"
proof -
  have 1: "Cause idle Background = None" by (simp add: Cause_def)
  have 2: "Cause idle (cancelCtx 0 Background) = None" by (simp add: Cause_def idle_def)
  from FromContext_reports_absence [of idle Background]
    FromContext_reports_absence [of idle "cancelCtx 0 Background"] 1 2
  show ?thesis by blast
qed

text \<open>
  C10.  The context that NotifyContext passes to run is the signalCtx that
  embeds the derived cancel context, and every observation of it (the done
  channel and its readiness, Err, Deadline, Value, and with them Cause and
  FromContext) is the observation of the derived context; only its description
  differs.
\<close>

theorem signalCtx_transparent:
  "fst (NotifyContext_step v parent run sigs cid ch (Main b) (N_notified, l, w))
     = N_running (run_start run (signalCtx (cancelCtx cid parent) sigs))
   \<and> ctx_Done (signalCtx c sigs) = ctx_Done c
   \<and> done_ready w (signalCtx c sigs) = done_ready w c
   \<and> ctx_Err w (signalCtx c sigs) = ctx_Err w c
   \<and> ctx_Deadline (signalCtx c sigs) = ctx_Deadline c
   \<and> ctx_Value (signalCtx c sigs) key = ctx_Value c key
   \<and> Cause w (signalCtx c sigs) = Cause w c
   \<and> FromContext w (signalCtx c sigs) = FromContext w c
   \<and> contextName sn dn (signalCtx (cancelCtx cid parent) sigs)
       \<noteq> contextName sn dn (cancelCtx cid parent)"
  by (simp add: done_ready_def ctx_Err_def Cause_def FromContext_def contextName_signalCtx_neq)

theorem signalCtx_transparent_witness:
  "ctx_Err example_world example_ctx = ctx_Err example_world (cancelCtx 0 Background)
   \<and> ctx_Err example_world example_ctx = Some context_Canceled
   \<and> contextName signal_name (\<lambda>d. []) example_ctx
       = ''signals.NotifyContext(context.Background, [interrupt terminated])''
   \<and> contextName signal_name (\<lambda>d. []) (cancelCtx 0 Background)
       = ''context.Background.WithCancel''"
proof -
  from signalCtx_transparent
    [where w = example_world and c = "cancelCtx 0 Background" and sigs = "[SIGINT, SIGTERM]"]
  have "ctx_Err example_world example_ctx = ctx_Err example_world (cancelCtx 0 Background)"
    by (simp add: example_ctx_def)
  moreover note example_err
  ultimately show ?thesis by (simp add: example_name)
qed

text \<open>
  C3, as stated, fails.  With the signal list [SIGINT] and a context that is
  not done: Wait registers, SIGINT is delivered to its queue, then the context
  is canceled, and the select, with both cases ready, takes the done case: Wait
  returns nil although the context did not become done before a signal of the
  list was delivered.  And with a context canceled before the call: Wait
  registers, SIGINT is delivered, and the select takes the channel case: Wait
  returns SIGINT although the context was done before any signal was
  delivered.
\<close>

theorem Wait_nil_iff_done_first_counterexample:
  "Wait (cancelCtx 0 Background) [SIGINT] 0
     [Main True, Env (Raise SIGINT), Env (CancelCause (cancelCtx 0 Background) None),
      Main False, Main True] idle = Some None
   \<and> \<not> done_first (cancelCtx 0 Background) [SIGINT] 0
     [Main True, Env (Raise SIGINT), Env (CancelCause (cancelCtx 0 Background) None),
      Main False, Main True] (W_start, idle)
   \<and> Wait (cancelCtx 0 Background) [SIGINT] 0
     [Env (CancelCause (cancelCtx 0 Background) None), Main True, Env (Raise SIGINT),
      Main True, Main True] idle = Some (Some SIGINT)
   \<and> done_first (cancelCtx 0 Background) [SIGINT] 0
     [Env (CancelCause (cancelCtx 0 Background) None), Main True, Env (Raise SIGINT),
      Main True, Main True] (W_start, idle)"
  using race1 race1_not_first race2 race2_first by simp

text \<open>
  C3, amended.  For every context and every signal list, Wait has exactly two
  outcomes, a signal or nil.  It returns nil only if the context is done, and
  a signal only if that signal is subscribed and was raised during the call.
  At the select: with a signal in the queue and the context not done it takes
  the signal; with an empty queue and the context done it returns nil; with
  neither it blocks; with both, either can happen (the pick decides).  When
  only events happen between the registration and the select, the result is
  the first subscribed signal raised there if there is one and the context is
  not done or the pick takes it, nil if the context is done, and no return yet
  otherwise; so a context already done at call time yields nil without waiting
  for a signal when no subscribed signal arrives before the select.
\<close>

theorem Wait_outcomes:
  "(Wait ctx sigs ch sched w = Some None
      \<longrightarrow> done_ready (snd (Wait_exec ctx sigs ch sched w)) ctx)
   \<and> (Wait ctx sigs ch sched w = Some (Some s)
      \<longrightarrow> subscribed sigs s \<and> s \<in> set (raised (env_events sched)))
   \<and> Wait_step ctx sigs ch (Main b) (W_select, w) =
       (if buf w ch \<noteq> [] \<and> (b \<or> \<not> done_ready w ctx)
          then (W_deferred (Some (hd (buf w ch))), recv ch w)
        else if done_ready w ctx then (W_deferred None, w)
        else (W_select, w))
   \<and> Wait ctx sigs ch (Main b1 # map Env es @ [Main b2, Main b3]) w =
       (let w1 = foldl (\<lambda>w e. apply_event e w) (signal_Notify ch sigs (make_chan ch 1 w)) es;
            q = take 1 (filter (subscribed sigs) (raised es))
        in if q \<noteq> [] \<and> (b2 \<or> \<not> done_ready w1 ctx) then Some (Some (hd q))
           else if done_ready w1 ctx then Some None
           else None)
   \<and> (done_ready w ctx \<and> filter (subscribed sigs) (raised es) = []
      \<longrightarrow> Wait ctx sigs ch (Main b1 # map Env es @ [Main b2, Main b3]) w = Some None)"
  using Wait_nil_done [of ctx sigs ch sched w] Wait_signal_raised [of ctx sigs ch sched w s]
    Wait_select_step [of ctx sigs ch b w] Wait_shape [of ctx sigs ch b1 es b2 b3 w]
    Wait_already_done [of w ctx sigs es ch b1 b2 b3]
  by blast

theorem Wait_outcomes_witness:
  "Wait (cancelCtx 0 Background) [SIGINT] 0
     [Main True, Env (Raise SIGINT), Env (CancelCause (cancelCtx 0 Background) None),
      Main False, Main True] idle = Some None
   \<and> done_ready (snd (Wait_exec (cancelCtx 0 Background) [SIGINT] 0
     [Main True, Env (Raise SIGINT), Env (CancelCause (cancelCtx 0 Background) None),
      Main False, Main True] idle)) (cancelCtx 0 Background)
   \<and> Wait (cancelCtx 0 Background) [SIGINT] 0
     [Main True, Env (Raise SIGINT), Main True, Main True] idle = Some (Some SIGINT)
   \<and> subscribed [SIGINT] SIGINT
   \<and> SIGINT \<in> set (raised (env_events [Main True, Env (Raise SIGINT), Main True, Main True]))
   \<and> done_ready (apply_event (CancelCause (cancelCtx 0 Background) None) idle) (cancelCtx 0 Background)
   \<and> filter (subscribed [SIGINT]) (raised [Raise SIGTERM]) = []
   \<and> Wait (cancelCtx 0 Background) [SIGINT] 0
       (Main True # map Env [Raise SIGTERM] @ [Main True, Main True])
       (apply_event (CancelCause (cancelCtx 0 Background) None) idle) = Some None"
proof -
  have f: "filter (subscribed [SIGINT]) (raised [Raise SIGTERM]) = []"
    by (simp add: subscribed_def SIGINT_def SIGTERM_def)
  from Wait_outcomes [of "cancelCtx 0 Background" "[SIGINT]" 0
      "[Main True, Env (Raise SIGINT), Env (CancelCause (cancelCtx 0 Background) None),
        Main False, Main True]" idle] race1
  have 1: "done_ready (snd (Wait_exec (cancelCtx 0 Background) [SIGINT] 0
     [Main True, Env (Raise SIGINT), Env (CancelCause (cancelCtx 0 Background) None),
      Main False, Main True] idle)) (cancelCtx 0 Background)"
    by blast
  from Wait_outcomes [of "cancelCtx 0 Background" "[SIGINT]" 0
      "[Main True, Env (Raise SIGINT), Main True, Main True]" idle SIGINT] wait_signal
  have 2: "subscribed [SIGINT] SIGINT
    \<and> SIGINT \<in> set (raised (env_events [Main True, Env (Raise SIGINT), Main True, Main True]))"
    by blast
  from Wait_outcomes [where ctx = "cancelCtx 0 Background" and sigs = "[SIGINT]" and ch = 0
      and w = "apply_event (CancelCause (cancelCtx 0 Background) None) idle"
      and es = "[Raise SIGTERM]" and ?b1.0 = True and ?b2.0 = True and ?b3.0 = True]
    canceled_done f
  have 3: "Wait (cancelCtx 0 Background) [SIGINT] 0
       (Main True # map Env [Raise SIGTERM] @ [Main True, Main True])
       (apply_event (CancelCause (cancelCtx 0 Background) None) idle) = Some None"
    by blast
  from race1 1 wait_signal 2 canceled_done f 3 show ?thesis by blast
qed

text \<open>
  C5.  For both Wait and NotifyContext (either version): from the registration
  until signal.Stop, the handler of the call's channel wants a signal exactly
  when the signal is subscribed, and a raised signal enters the empty queue
  exactly when it is subscribed.  With an empty argument list every signal
  number is subscribed; with a non-empty list only the listed ones are.
\<close>

theorem subscription_policy:
  "(Wait_exec ctx sigs ch sched w = (pc, w') \<and> (pc = W_select \<or> pc = W_deferred r)
      \<longrightarrow> wants w' ch s = subscribed sigs s
        \<and> buf (apply_event (Raise s) w') ch
            = (if subscribed sigs s \<and> buf w' ch = [] then [s] else buf w' ch))
   \<and> (NotifyContext_exec v parent run sigs cid ch nsched w = (npc, l, w'')
        \<and> (npc = N_notified \<or> npc = N_running st \<or> npc = N_deferred1 out)
      \<longrightarrow> wants w'' ch s = subscribed sigs s
        \<and> buf (apply_event (Raise s) w'') ch
            = (if subscribed sigs s \<and> buf w'' ch = [] then [s] else buf w'' ch))
   \<and> subscribed [] s = (0 \<le> s \<and> s < numSig)
   \<and> (sigs \<noteq> [] \<longrightarrow> subscribed sigs s = (s \<in> set sigs \<and> 0 \<le> s \<and> s < numSig))"
proof (intro conjI impI)
  assume a: "Wait_exec ctx sigs ch sched w = (pc, w') \<and> (pc = W_select \<or> pc = W_deferred r)"
  with Wait_inv_exec [of sigs ch ctx sched w] have reg: "registered sigs ch w'" by auto
  then show "wants w' ch s = subscribed sigs s" by (rule registered_wants)
  from reg show "buf (apply_event (Raise s) w') ch
            = (if subscribed sigs s \<and> buf w' ch = [] then [s] else buf w' ch)"
    by (rule registered_Raise)
next
  assume a: "NotifyContext_exec v parent run sigs cid ch nsched w = (npc, l, w'')
        \<and> (npc = N_notified \<or> npc = N_running st \<or> npc = N_deferred1 out)"
  then have reg: "registered sigs ch w''"
    using NC_subscription [of v parent run sigs cid ch nsched w npc l w'' st out] by blast
  then show "wants w'' ch s = subscribed sigs s" by (rule registered_wants)
  from reg show "buf (apply_event (Raise s) w'') ch
            = (if subscribed sigs s \<and> buf w'' ch = [] then [s] else buf w'' ch)"
    by (rule registered_Raise)
next
  show "subscribed [] s = (0 \<le> s \<and> s < numSig)" by (simp add: subscribed_def)
next
  assume "sigs \<noteq> []"
  then show "subscribed sigs s = (s \<in> set sigs \<and> 0 \<le> s \<and> s < numSig)"
    by (auto simp: subscribed_def)
qed

theorem subscription_policy_witness:
  "Wait_exec Background [] 0 [Main True] idle
     = (W_select, signal_Notify 0 [] (make_chan 0 1 idle))
   \<and> wants (signal_Notify 0 [] (make_chan 0 1 idle)) 0 SIGTERM
   \<and> Wait_exec Background [SIGINT] 0 [Main True] idle
     = (W_select, signal_Notify 0 [SIGINT] (make_chan 0 1 idle))
   \<and> wants (signal_Notify 0 [SIGINT] (make_chan 0 1 idle)) 0 SIGINT
   \<and> \<not> wants (signal_Notify 0 [SIGINT] (make_chan 0 1 idle)) 0 SIGTERM
   \<and> NotifyContext_exec WithCause Background runN [SIGINT, SIGTERM] 0 0 example_sched idle
       = (N_running (AwaitDone, example_ctx), Exited, example_world)
   \<and> wants example_world 0 SIGTERM
   \<and> \<not> wants example_world 0 1"
proof -
  have s: "subscribed [] SIGTERM" "subscribed [SIGINT] SIGINT" "\<not> subscribed [SIGINT] SIGTERM"
    "subscribed [SIGINT, SIGTERM] SIGTERM" "\<not> subscribed [SIGINT, SIGTERM] 1"
    by (simp_all add: subscribed_def SIGINT_def SIGTERM_def numSig_def)
  note w1 = subscription_policy [where ctx = Background and sigs = "[]" and ch = 0
      and sched = "[Main True]" and w = idle and pc = W_select
      and w' = "signal_Notify 0 [] (make_chan 0 1 idle)",
      THEN conjunct1, rule_format, OF conjI [OF wait_registered disjI1 [OF refl]], THEN conjunct1]
  note w2 = subscription_policy [where ctx = Background and sigs = "[SIGINT]" and ch = 0
      and sched = "[Main True]" and w = idle and pc = W_select
      and w' = "signal_Notify 0 [SIGINT] (make_chan 0 1 idle)",
      THEN conjunct1, rule_format, OF conjI [OF wait_registered2 disjI1 [OF refl]], THEN conjunct1]
  note n = subscription_policy [where v = WithCause and parent = Background and run = runN
      and sigs = "[SIGINT, SIGTERM]" and cid = 0 and ch = 0 and nsched = example_sched
      and w = idle and npc = "N_running (AwaitDone, example_ctx)" and l = Exited
      and w'' = example_world and st = "(AwaitDone, example_ctx)",
      THEN conjunct2, THEN conjunct1, rule_format,
      OF conjI [OF example_exec disjI2 [OF disjI1 [OF refl]]], THEN conjunct1]
  have 1: "wants (signal_Notify 0 [] (make_chan 0 1 idle)) 0 SIGTERM"
    unfolding w1 by (rule s)
  have 2: "wants (signal_Notify 0 [SIGINT] (make_chan 0 1 idle)) 0 SIGINT"
    unfolding w2 by (rule s)
  have 3: "\<not> wants (signal_Notify 0 [SIGINT] (make_chan 0 1 idle)) 0 SIGTERM"
    unfolding w2 by (rule s)
  have 4: "wants example_world 0 SIGTERM"
    unfolding n by (rule s)
  have 5: "\<not> wants example_world 0 1"
    unfolding n by (rule s)
  show ?thesis
    by (intro conjI wait_registered wait_registered2 example_exec 1 2 3 4 5)
qed

text \<open>
  C6.  For both Wait and NotifyContext (either version): whenever the call has
  ended, by a return of either result or, for NotifyContext, by a return or a
  panic of run, the handler of its channel is gone from the signal registry,
  and no signal is wanted for the channel any more.  This holds in every
  execution, so also when the context was canceled before the registration.
\<close>

theorem subscription_released:
  "(Wait ctx sigs ch sched w = Some r
      \<longrightarrow> handlers (snd (Wait_exec ctx sigs ch sched w)) ch = None
        \<and> \<not> wants (snd (Wait_exec ctx sigs ch sched w)) ch s)
   \<and> (outcome_of (NotifyContext_exec v parent run sigs cid ch nsched w) = Some out
      \<longrightarrow> handlers (snd (snd (NotifyContext_exec v parent run sigs cid ch nsched w))) ch = None
        \<and> \<not> wants (snd (snd (NotifyContext_exec v parent run sigs cid ch nsched w))) ch s)"
  using Wait_released [of ctx sigs ch sched w r]
    NC_released [of v parent run sigs cid ch nsched w out]
  by (auto simp: wants_def)

theorem subscription_released_witness:
  "Wait (cancelCtx 0 Background) [SIGINT] 0 [Main True, Main True, Main True]
     (apply_event (CancelCause (cancelCtx 0 Background) None) idle) = Some None
   \<and> handlers (snd (Wait_exec (cancelCtx 0 Background) [SIGINT] 0 [Main True, Main True, Main True]
        (apply_event (CancelCause (cancelCtx 0 Background) None) idle))) 0 = None
   \<and> outcome_of (NotifyContext_exec WithCause Background run_panics [SIGINT] 0 0
        [Main True, Main True, Main True, Main True, Main True, Main True] idle) = Some Panicked
   \<and> handlers (snd (snd (NotifyContext_exec WithCause Background run_panics [SIGINT] 0 0
        [Main True, Main True, Main True, Main True, Main True, Main True] idle))) 0 = None
   \<and> handlers (snd (snd (NotifyContext_exec Relayed Background run_panics [SIGINT] 0 0
        [Main True, Main True, Main True, Main True, Main True, Main True] idle))) 0 = None"
proof -
  from subscription_released [of "cancelCtx 0 Background" "[SIGINT]" 0
      "[Main True, Main True, Main True]"
      "apply_event (CancelCause (cancelCtx 0 Background) None) idle" None]
    wait_canceled_before
  have 1: "handlers (snd (Wait_exec (cancelCtx 0 Background) [SIGINT] 0 [Main True, Main True, Main True]
        (apply_event (CancelCause (cancelCtx 0 Background) None) idle))) 0 = None"
    by blast
  from subscription_released [where v = WithCause and parent = Background and run = run_panics
      and sigs = "[SIGINT]" and cid = 0 and ch = 0 and w = idle and out = Panicked
      and nsched = "[Main True, Main True, Main True, Main True, Main True, Main True]"]
    run_panics_exits [of WithCause]
  have 2: "handlers (snd (snd (NotifyContext_exec WithCause Background run_panics [SIGINT] 0 0
        [Main True, Main True, Main True, Main True, Main True, Main True] idle))) 0 = None"
    by blast
  from subscription_released [where v = Relayed and parent = Background and run = run_panics
      and sigs = "[SIGINT]" and cid = 0 and ch = 0 and w = idle and out = Panicked
      and nsched = "[Main True, Main True, Main True, Main True, Main True, Main True]"]
    run_panics_exits [of Relayed]
  have 3: "handlers (snd (snd (NotifyContext_exec Relayed Background run_panics [SIGINT] 0 0
        [Main True, Main True, Main True, Main True, Main True, Main True] idle))) 0 = None"
    by blast
  from wait_canceled_before run_panics_exits [of WithCause] 1 2 3 show ?thesis by blast
qed

text \<open>
  C7, as stated, fails in its last part.  In the example, runN holds a context
  that SIGINT has canceled; a call of NotifyContext on that context, for
  SIGTERM, finds its parent canceled before setup and starts no goroutine, and
  yet the derived context is canceled with the parent's cause, a Canceled
  value that holds SIGINT, and FromContext reports SIGINT for it.
\<close>

theorem child_of_canceled_parent_counterexample:
  "ctx_state example_world example_ctx \<noteq> None
   \<and> NotifyContext_exec WithCause example_ctx run_fails [SIGTERM] 1 1
       [Main True, Main True, Main True] example_world = (N_running (), NotStarted, nested_world)
   \<and> Cause nested_world (cancelCtx 1 example_ctx) = Some (SignalCanceled (Canceled (Some SIGINT)))
   \<and> Cause nested_world nested_ctx = Some (SignalCanceled (Canceled (Some SIGINT)))
   \<and> FromContext nested_world nested_ctx = (Some SIGINT, True)"
  using nested_parent_done nested_exec nested_cause nested_FromContext
  by (simp add: nested_ctx_def Cause_def)

text \<open>
  C7, amended.  In NotifyContext (either version) the goroutine is started
  only by the step that tests ctx.Err(), and only if the derived context is
  not canceled at that step.  When its select finds the done channel ready and
  the queue empty (or the pick takes the done case), the goroutine ends and
  changes nothing, and it never does anything afterwards.  For a parent that
  is canceled before the call, with a fresh cancel node for the derived
  context: the goroutine is never started, the derived context never gets an
  entry of its own (neither the goroutine nor the deferred cancel sets one),
  and its state, its cause and the answer of FromContext are the parent's at
  every moment; so its cause holds a signal only if the parent's cause does.
\<close>

theorem listener_start_and_canceled_parent:
  "(NotifyContext_exec v parent run sigs cid ch sched w0 = (pc, l, w) \<and> l \<noteq> NotStarted
      \<longrightarrow> (\<exists>pre b post w1. sched = pre @ Main b # post
            \<and> NotifyContext_exec v parent run sigs cid ch pre w0 = (N_notified, NotStarted, w1)
            \<and> ctx_Err w1 (cancelCtx cid parent) = None))
   \<and> (done_ready w (cancelCtx cid parent) \<and> (buf w ch = [] \<or> b = False)
      \<longrightarrow> NotifyContext_step v parent run sigs cid ch (Goroutine b) (pc, Selecting, w)
          = (pc, Exited, w))
   \<and> NotifyContext_step v parent run sigs cid ch (Goroutine b) (pc, Exited, w) = (pc, Exited, w)
   \<and> (cid \<notin> nodes_of parent \<and> ctx_state w0 parent \<noteq> None
        \<and> NotifyContext_exec v parent run sigs cid ch sched w0 = (pc, l, w)
      \<longrightarrow> l = NotStarted \<and> ctx_state w parent \<noteq> None
        \<and> (pc \<noteq> N_start
            \<longrightarrow> own w cid = None
              \<and> ctx_state w (cancelCtx cid parent) = ctx_state w parent
              \<and> Cause w (signalCtx (cancelCtx cid parent) sigs) = Cause w parent
              \<and> FromContext w (signalCtx (cancelCtx cid parent) sigs) = FromContext w parent))"
proof (intro conjI impI)
  assume "NotifyContext_exec v parent run sigs cid ch sched w0 = (pc, l, w) \<and> l \<noteq> NotStarted"
  then show "\<exists>pre b post w1. sched = pre @ Main b # post
            \<and> NotifyContext_exec v parent run sigs cid ch pre w0 = (N_notified, NotStarted, w1)
            \<and> ctx_Err w1 (cancelCtx cid parent) = None"
    using NC_listener_start [of v parent run sigs cid ch sched w0 pc l w] by blast
next
  assume "done_ready w (cancelCtx cid parent) \<and> (buf w ch = [] \<or> b = False)"
  then show "NotifyContext_step v parent run sigs cid ch (Goroutine b) (pc, Selecting, w)
          = (pc, Exited, w)"
    using NC_listener_done [of w cid parent ch b v run sigs pc] by blast
next
  show "NotifyContext_step v parent run sigs cid ch (Goroutine b) (pc, Exited, w) = (pc, Exited, w)"
    by simp
next
  assume a: "cid \<notin> nodes_of parent \<and> ctx_state w0 parent \<noteq> None
        \<and> NotifyContext_exec v parent run sigs cid ch sched w0 = (pc, l, w)"
  with NC_parent_inv_exec [of cid parent w0 v run sigs ch sched]
  have inv: "NC_parent_inv parent cid (pc, l, w)" by simp
  then show "l = NotStarted" and "ctx_state w parent \<noteq> None" by simp_all
  assume "pc \<noteq> N_start"
  with inv have o: "own w cid = None" by simp
  then show "own w cid = None" .
  from o show "ctx_state w (cancelCtx cid parent) = ctx_state w parent" by simp
  from o show "Cause w (signalCtx (cancelCtx cid parent) sigs) = Cause w parent"
    by (simp add: Cause_def)
  from o show "FromContext w (signalCtx (cancelCtx cid parent) sigs) = FromContext w parent"
    by (simp add: FromContext_child)
qed

theorem listener_start_and_canceled_parent_witness:
  "NotifyContext_exec WithCause Background runN [SIGINT, SIGTERM] 0 0 example_sched idle
     = (N_running (AwaitDone, example_ctx), Exited, example_world)
   \<and> (\<exists>pre b post w1. example_sched = pre @ Main b # post
        \<and> NotifyContext_exec WithCause Background runN [SIGINT, SIGTERM] 0 0 pre idle
            = (N_notified, NotStarted, w1)
        \<and> ctx_Err w1 (cancelCtx 0 Background) = None)
   \<and> done_ready canceled_world (cancelCtx 0 Background)
   \<and> NotifyContext_step WithCause Background runN [SIGINT] 0 0 (Goroutine False)
        (N_running (AwaitDone, Background), Selecting, canceled_world)
       = (N_running (AwaitDone, Background), Exited, canceled_world)
   \<and> 1 \<notin> nodes_of (cancelCtx 0 Background)
   \<and> ctx_state canceled_world (cancelCtx 0 Background) \<noteq> None
   \<and> fst (snd (NotifyContext_exec WithCause (cancelCtx 0 Background) runN [SIGINT] 1 1
        [Main True, Main True, Main True, Main True, Goroutine True, Goroutine True]
        canceled_world)) = NotStarted
   \<and> FromContext (snd (snd (NotifyContext_exec WithCause (cancelCtx 0 Background) runN [SIGINT] 1 1
        [Main True, Main True, Main True, Main True, Goroutine True, Goroutine True]
        canceled_world)))
       (signalCtx (cancelCtx 1 (cancelCtx 0 Background)) [SIGINT]) = (None, False)"
proof -
  let ?sched = "[Main True, Main True, Main True, Main True, Goroutine True, Goroutine True]"
  let ?e = "NotifyContext_exec WithCause (cancelCtx 0 Background) runN [SIGINT] 1 1 ?sched
      canceled_world"
  have d: "done_ready canceled_world (cancelCtx 0 Background)"
    using canceled_parent_state by (simp add: done_ready_def)
  have f: "1 \<notin> nodes_of (cancelCtx 0 Background)" by simp
  have e: "?e = (fst ?e, fst (snd ?e), snd (snd ?e))" by simp
  note 1 = listener_start_and_canceled_parent
    [where v = WithCause and parent = Background and run = runN and sigs = "[SIGINT, SIGTERM]"
      and cid = 0 and ch = 0 and sched = example_sched and ?w0.0 = idle
      and pc = "N_running (AwaitDone, example_ctx)" and l = Exited and w = example_world,
      THEN conjunct1, rule_format, OF conjI [OF example_exec]]
  note 2 = listener_start_and_canceled_parent
    [where v = WithCause and parent = Background and run = runN and sigs = "[SIGINT]"
      and cid = 0 and ch = 0 and w = canceled_world and b = False
      and pc = "N_running (AwaitDone, Background)",
      THEN conjunct2, THEN conjunct1, rule_format, OF conjI [OF d disjI2 [OF refl]]]
  note 3 = listener_start_and_canceled_parent
    [where v = WithCause and parent = "cancelCtx 0 Background" and run = runN
      and sigs = "[SIGINT]" and cid = 1 and ch = 1 and sched = ?sched
      and ?w0.0 = canceled_world and pc = "fst ?e" and l = "fst (snd ?e)" and w = "snd (snd ?e)",
      THEN conjunct2, THEN conjunct2, THEN conjunct2, rule_format,
      OF conjI [OF f conjI [OF canceled_parent_state e]]]
  from 3 have l: "fst (snd ?e) = NotStarted" by (rule conjunct1)
  from 3 canceled_parent_pc
  have "FromContext (snd (snd ?e)) (signalCtx (cancelCtx 1 (cancelCtx 0 Background)) [SIGINT])
      = FromContext (snd (snd ?e)) (cancelCtx 0 Background)"
    by blast
  then have r: "FromContext (snd (snd ?e)) (signalCtx (cancelCtx 1 (cancelCtx 0 Background)) [SIGINT])
      = (None, False)"
    by (simp only: canceled_parent_FromContext)
  have p1: "\<exists>pre b post w1. example_sched = pre @ Main b # post
        \<and> NotifyContext_exec WithCause Background runN [SIGINT, SIGTERM] 0 0 pre idle
            = (N_notified, NotStarted, w1)
        \<and> ctx_Err w1 (cancelCtx 0 Background) = None"
    by (rule 1) simp
  show ?thesis
    by (intro conjI example_exec p1 d 2 f canceled_parent_state l r)
qed

text \<open>
  C8.  The channel that Wait and NotifyContext (either version) make has
  capacity 1.  When only events happen between the registration and the
  select of the waiter (for NotifyContext: around the step that starts the
  goroutine), the queue then holds exactly the first subscribed signal raised
  since the registration, if there was one: that signal is buffered, not lost.
  If there was one, the select of Wait can take it and Wait then returns it,
  and the select of the goroutine can take it.
\<close>

theorem signal_buffered:
  "(\<exists>w'. Wait_exec ctx sigs ch (Main b # map Env es) w = (W_select, w')
        \<and> cap w' ch = 1 \<and> buf w' ch = take 1 (filter (subscribed sigs) (raised es)))
   \<and> (filter (subscribed sigs) (raised es) \<noteq> []
      \<longrightarrow> Wait ctx sigs ch (Main b # map Env es @ [Main True, Main b3]) w
          = Some (Some (hd (filter (subscribed sigs) (raised es)))))
   \<and> (\<exists>l w'. NotifyContext_exec v parent run sigs cid ch
            (Main b1 # Main b2 # map Env es1 @ Main b3 # map Env es2) w
          = (N_running (run_start run (signalCtx (cancelCtx cid parent) sigs)), l, w')
        \<and> cap w' ch = 1
        \<and> buf w' ch = take 1 (filter (subscribed sigs) (raised (es1 @ es2))))
   \<and> (buf w ch \<noteq> []
      \<longrightarrow> NotifyContext_step v parent run sigs cid ch (Goroutine True) (pc, Selecting, w)
          = (pc, Received (hd (buf w ch)), recv ch w))"
proof (intro conjI impI)
  obtain pc w' where e: "Wait_exec ctx sigs ch (Main b # map Env es) w = (pc, w')"
    by (cases "Wait_exec ctx sigs ch (Main b # map Env es) w")
  then have "pc = W_select" by (simp add: Wait_exec_def Wait_step_Env_fold)
  with e Wait_buffered [of ctx sigs ch b es w w']
  show "\<exists>w'. Wait_exec ctx sigs ch (Main b # map Env es) w = (W_select, w')
        \<and> cap w' ch = 1 \<and> buf w' ch = take 1 (filter (subscribed sigs) (raised es))"
    by blast
next
  assume ne: "filter (subscribed sigs) (raised es) \<noteq> []"
  then have "take 1 (filter (subscribed sigs) (raised es)) \<noteq> []"
    and "hd (take 1 (filter (subscribed sigs) (raised es))) = hd (filter (subscribed sigs) (raised es))"
    by (cases "filter (subscribed sigs) (raised es)"; simp)+
  then show "Wait ctx sigs ch (Main b # map Env es @ [Main True, Main b3]) w
          = Some (Some (hd (filter (subscribed sigs) (raised es))))"
    by (simp add: Wait_shape Let_def)
next
  show "\<exists>l w'. NotifyContext_exec v parent run sigs cid ch
            (Main b1 # Main b2 # map Env es1 @ Main b3 # map Env es2) w
          = (N_running (run_start run (signalCtx (cancelCtx cid parent) sigs)), l, w')
        \<and> cap w' ch = 1
        \<and> buf w' ch = take 1 (filter (subscribed sigs) (raised (es1 @ es2)))"
    by (rule NC_buffered)
next
  assume "buf w ch \<noteq> []"
  then show "NotifyContext_step v parent run sigs cid ch (Goroutine True) (pc, Selecting, w)
          = (pc, Received (hd (buf w ch)), recv ch w)"
    by (rule NC_listener_receives) simp_all
qed

theorem signal_buffered_witness:
  "filter (subscribed [SIGINT]) (raised [Raise SIGINT, Raise SIGINT]) \<noteq> []
   \<and> Wait Background [SIGINT] 0
       (Main True # map Env [Raise SIGINT, Raise SIGINT] @ [Main True, Main True]) idle
      = Some (Some SIGINT)
   \<and> buf (process SIGINT (signal_Notify 0 [SIGINT] (make_chan 0 1 idle))) 0 \<noteq> []
   \<and> NotifyContext_step WithCause Background runN [SIGINT] 0 0 (Goroutine True)
        (N_running (Kill, Background), Selecting,
         process SIGINT (signal_Notify 0 [SIGINT] (make_chan 0 1 idle)))
      = (N_running (Kill, Background), Received SIGINT,
         recv 0 (process SIGINT (signal_Notify 0 [SIGINT] (make_chan 0 1 idle))))"
proof -
  note 1 = signal_buffered [where ctx = Background and sigs = "[SIGINT]" and ch = 0
      and b = True and ?b3.0 = True and es = "[Raise SIGINT, Raise SIGINT]" and w = idle,
      THEN conjunct2, THEN conjunct1, rule_format, OF early_signal, unfolded early_signal_hd]
  note 2 = signal_buffered [where v = WithCause and parent = Background and run = runN
      and sigs = "[SIGINT]" and cid = 0 and ch = 0 and pc = "N_running (Kill, Background)"
      and w = "process SIGINT (signal_Notify 0 [SIGINT] (make_chan 0 1 idle))",
      THEN conjunct2, THEN conjunct2, THEN conjunct2, rule_format, OF early_buffer,
      unfolded early_buffer_hd]
  show ?thesis by (intro conjI early_signal 1 early_buffer 2)
qed

end

